theory Spec2Isabelle
  imports Main
begin

section \<open>Data model (types/contact.types.ts, types/common.types.ts)\<close>

text \<open>
  Identifiers are strings (uuidv4 values). Timestamps are ISO strings in the source, produced
  by \<^verbatim>\<open>new Date().toISOString()\<close> and compared after \<^verbatim>\<open>new Date(...)\<close>; they are
  modelled by the number of milliseconds they denote. An optional field is an \<open>option\<close>.
  The field \<^verbatim>\<open>id\<close> is called \<open>cid\<close> (\<open>id\<close> is the identity function of HOL), and
  fields that several interfaces share carry a prefix. \<^verbatim>\<open>deletedAt\<close> is never read or
  written by the service or the model class and is left out.
\<close>

datatype LinkPrecedence = Primary | Secondary

record Contact =
  cid :: string
  phoneNumber :: "string option"
  email :: "string option"
  linkedId :: "string option"
  linkPrecedence :: LinkPrecedence
  createdAt :: nat
  updatedAt :: nat

record IdentifyRequest =
  req_email :: "string option"
  req_phoneNumber :: "string option"

record ConsolidatedContact =
  primaryContactId :: string
  emails :: "string list"
  phoneNumbers :: "string list"
  secondaryContactIds :: "string list"

record ContactQueryParams =
  q_email :: "string option"
  q_phoneNumber :: "string option"

record CreateContactParams =
  cp_phoneNumber :: "string option"
  cp_email :: "string option"
  cp_linkedId :: "string option"
  cp_linkPrecedence :: LinkPrecedence

record UpdateContactParams =
  up_id :: string
  up_linkedId :: "string option"
  up_linkPrecedence :: "LinkPrecedence option"
  up_updatedAt :: nat

record ContactGroup =
  primaryId :: string
  g_createdAt :: nat
  contacts :: "Contact list"

text \<open>\<^verbatim>\<open>DbOperationResult\<close>: \<open>success: false\<close> with an error text, or \<open>success: true\<close> with data.\<close>

datatype 'a DbOperationResult = Failure string | Success 'a

text \<open>The one exception the service can raise: a property read on \<^verbatim>\<open>undefined\<close>.\<close>

datatype exn = TypeError

text \<open>JavaScript truthiness of an optional string: \<^verbatim>\<open>undefined\<close> and \<^verbatim>\<open>""\<close> are falsy.\<close>

definition truthy :: "string option \<Rightarrow> bool" where
  "truthy v = (case v of None \<Rightarrow> False | Some s \<Rightarrow> s \<noteq> [])"

section \<open>The store (models/contact.model.ts over the DynamoDB document client)\<close>

text \<open>
  The table is the list of its items in the order a Scan returns them; DynamoDB fixes that
  order by a hash of the key, so the place where a new item lands is an input (\<open>slot\<close>).
  One Scan page is taken to cover the table, as the source reads one page only.
  Every request handed to \<^verbatim>\<open>docClient.send\<close> is recorded in \<open>sent\<close>; \<open>faults\<close> tells for
  each coming request whether it throws (\<open>True\<close>), and an exhausted list means success.
  The environment of one \<^verbatim>\<open>identifyContact\<close> call gives the value of \<^verbatim>\<open>uuidv4()\<close> (a call
  creates at most one item), the clock reading (one reading stands for the
  \<^verbatim>\<open>new Date()\<close> of the writes of one call) and the slot.
\<close>

datatype ScanFilter = EmailOrPhone "string option" "string option" | LinkedIdEq string

datatype Command =
    PutCommand Contact
  | GetCommand string
  | UpdateCommand UpdateContactParams
  | ScanCommand ScanFilter

record World =
  table :: "Contact list"
  sent :: "Command list"
  faults :: "bool list"

record Env =
  uuid :: string
  now :: nat
  slot :: nat

definition send :: "World \<Rightarrow> Command \<Rightarrow> World \<times> bool" where
  "send w cmd =
     (case faults w of
        [] \<Rightarrow> (w\<lparr>sent := sent w @ [cmd]\<rparr>, True)
      | b # bs \<Rightarrow> (w\<lparr>sent := sent w @ [cmd], faults := bs\<rparr>, \<not> b))"

text \<open>PutItem replaces the item that has the key, or adds the item at its slot.\<close>

definition putItem :: "nat \<Rightarrow> Contact \<Rightarrow> Contact list \<Rightarrow> Contact list" where
  "putItem k c tbl =
     (if cid c \<in> set (map cid tbl)
      then map (\<lambda>x. if cid x = cid c then c else x) tbl
      else take k tbl @ c # drop k tbl)"

definition getItem :: "string \<Rightarrow> Contact list \<Rightarrow> Contact option" where
  "getItem k tbl = find (\<lambda>c. cid c = k) tbl"

text \<open>
  UpdateItem with \<^verbatim>\<open>SET\<close> on the attributes that the parameters define. On a key that
  is not in the table DynamoDB would add an item without \<^verbatim>\<open>createdAt\<close>, which is no
  \<open>Contact\<close>; the service only updates keys of items it has just read, and here such a
  request leaves the table as it is.
\<close>

definition applyUpdate :: "UpdateContactParams \<Rightarrow> Contact \<Rightarrow> Contact" where
  "applyUpdate p c =
     c\<lparr>linkedId := (case up_linkedId p of None \<Rightarrow> linkedId c | Some l \<Rightarrow> Some l),
       linkPrecedence := (case up_linkPrecedence p of None \<Rightarrow> linkPrecedence c | Some l \<Rightarrow> l),
       updatedAt := up_updatedAt p\<rparr>"

definition updateItem :: "UpdateContactParams \<Rightarrow> Contact list \<Rightarrow> Contact list" where
  "updateItem p tbl = map (\<lambda>c. if cid c = up_id p then applyUpdate p c else c) tbl"

definition create :: "Env \<Rightarrow> World \<Rightarrow> CreateContactParams \<Rightarrow> World \<times> Contact DbOperationResult" where
  "create env w params =
     (let contact = \<lparr>cid = uuid env, phoneNumber = cp_phoneNumber params,
                      email = cp_email params, linkedId = cp_linkedId params,
                      linkPrecedence = cp_linkPrecedence params,
                      createdAt = now env, updatedAt = now env\<rparr>;
          (w1, ok) = send w (PutCommand contact)
      in if ok then (w1\<lparr>table := putItem (slot env) contact (table w1)\<rparr>, Success contact)
         else (w1, Failure ''Failed to create contact''))"

definition getById :: "World \<Rightarrow> string \<Rightarrow> World \<times> Contact DbOperationResult" where
  "getById w k =
     (let (w1, ok) = send w (GetCommand k)
      in if ok then
           (case getItem k (table w1) of
              None \<Rightarrow> (w1, Failure ''Contact not found'')
            | Some c \<Rightarrow> (w1, Success c))
         else (w1, Failure ''Failed to get contact''))"

definition update :: "World \<Rightarrow> UpdateContactParams \<Rightarrow> World \<times> Contact option DbOperationResult" where
  "update w params =
     (let (w1, ok) = send w (UpdateCommand params)
      in if ok then
           (let w2 = w1\<lparr>table := updateItem params (table w1)\<rparr>
            in (w2, Success (getItem (up_id params) (table w2))))
         else (w1, Failure ''Failed to update contact''))"

definition matches :: "ContactQueryParams \<Rightarrow> Contact \<Rightarrow> bool" where
  "matches params c =
     ((truthy (q_email params) \<and> email c = q_email params) \<or>
      (truthy (q_phoneNumber params) \<and> phoneNumber c = q_phoneNumber params))"

definition findByEmailOrPhone ::
  "World \<Rightarrow> ContactQueryParams \<Rightarrow> World \<times> Contact list DbOperationResult" where
  "findByEmailOrPhone w params =
     (if truthy (q_email params) \<or> truthy (q_phoneNumber params) then
        (let (w1, ok) = send w (ScanCommand (EmailOrPhone (q_email params) (q_phoneNumber params)))
         in if ok then (w1, Success (filter (matches params) (table w1)))
            else (w1, Failure ''Failed to find contacts''))
      else (w, Success []))"

definition getLinkedContacts :: "World \<Rightarrow> string \<Rightarrow> World \<times> Contact list DbOperationResult" where
  "getLinkedContacts w pid =
     (case getById w pid of
        (w1, Failure _) \<Rightarrow> (w1, Failure ''Primary contact not found'')
      | (w1, Success p) \<Rightarrow>
          (let (w2, ok) = send w1 (ScanCommand (LinkedIdEq pid))
           in if ok then
                (w2, Success (p # filter (\<lambda>c. linkedId c = Some pid) (table w2)))
              else (w2, Failure ''Failed to get linked contacts'')))"

section \<open>The service (services/contact.service.ts)\<close>

definition createNewPrimaryContact ::
  "Env \<Rightarrow> World \<Rightarrow> IdentifyRequest \<Rightarrow> World \<times> ConsolidatedContact DbOperationResult" where
  "createNewPrimaryContact env w request =
     (let createParams = \<lparr>cp_phoneNumber = (if truthy (req_phoneNumber request)
                                              then req_phoneNumber request else None),
                           cp_email = (if truthy (req_email request) then req_email request else None),
                           cp_linkedId = None, cp_linkPrecedence = Primary\<rparr>
      in case create env w createParams of
           (w1, Failure _) \<Rightarrow> (w1, Failure ''Failed to create new primary contact'')
         | (w1, Success d) \<Rightarrow>
             (w1, Success \<lparr>primaryContactId = cid d,
                           emails = (case email d of None \<Rightarrow> []
                                     | Some e \<Rightarrow> if e \<noteq> [] then [e] else []),
                           phoneNumbers = (case phoneNumber d of None \<Rightarrow> []
                                           | Some p \<Rightarrow> if p \<noteq> [] then [p] else []),
                           secondaryContactIds = []\<rparr>))"

text \<open>
  The groups are the values of a \<^verbatim>\<open>Map\<close> in insertion order: a list of groups with
  distinct \<open>primaryId\<close>. \<open>hasGroup\<close> is \<^verbatim>\<open>groups.has\<close>, \<open>pushContact\<close> is
  \<^verbatim>\<open>groups.get(primaryId)!.contacts.push(contact)\<close>.
\<close>

definition hasGroup :: "ContactGroup list \<Rightarrow> string \<Rightarrow> bool" where
  "hasGroup groups k = (k \<in> set (map primaryId groups))"

definition pushContact :: "ContactGroup list \<Rightarrow> string \<Rightarrow> Contact \<Rightarrow> ContactGroup list" where
  "pushContact groups k c =
     map (\<lambda>g. if primaryId g = k then g\<lparr>contacts := contacts g @ [c]\<rparr> else g) groups"

text \<open>
  The loop of \<^verbatim>\<open>groupContactsByPrimary\<close>. A secondary without \<^verbatim>\<open>linkedId\<close> makes
  \<^verbatim>\<open>getById(undefined)\<close> fail before anything is sent, and a failed \<^verbatim>\<open>getById\<close> leaves
  \<^verbatim>\<open>data\<close> undefined: reading its \<^verbatim>\<open>createdAt\<close> throws.
\<close>

fun groupLoop ::
  "World \<Rightarrow> ContactGroup list \<Rightarrow> Contact list \<Rightarrow> World \<times> (exn + ContactGroup list)" where
  "groupLoop w groups [] = (w, Inr groups)"
| "groupLoop w groups (contact # rest) =
     (case (if linkPrecedence contact = Primary then Some (cid contact) else linkedId contact) of
        None \<Rightarrow> (w, Inl TypeError)
      | Some pid \<Rightarrow>
          if hasGroup groups pid then groupLoop w (pushContact groups pid contact) rest
          else if linkPrecedence contact = Primary then
            groupLoop w
              (pushContact (groups @ [\<lparr>primaryId = pid, g_createdAt = createdAt contact,
                                        contacts = []\<rparr>]) pid contact) rest
          else
            (case getById w pid of
               (w1, Failure _) \<Rightarrow> (w1, Inl TypeError)
             | (w1, Success primaryContact) \<Rightarrow>
                 groupLoop w1
                   (pushContact (groups @ [\<lparr>primaryId = pid,
                                             g_createdAt = createdAt primaryContact,
                                             contacts = []\<rparr>]) pid contact) rest))"

definition groupContactsByPrimary ::
  "World \<Rightarrow> Contact list \<Rightarrow> World \<times> (exn + ContactGroup list)" where
  "groupContactsByPrimary w cs = groupLoop w [] cs"

definition shouldCreateSecondaryContact :: "IdentifyRequest \<Rightarrow> Contact list \<Rightarrow> bool" where
  "shouldCreateSecondaryContact request existingContacts =
     (let exactMatch = find (\<lambda>contact. email contact = req_email request \<and>
                                        phoneNumber contact = req_phoneNumber request)
                            existingContacts
      in if exactMatch \<noteq> None then False
         else
           (let hasNewEmail = (truthy (req_email request) \<and>
                  \<not> list_ex (\<lambda>contact. email contact = req_email request) existingContacts);
                hasNewPhone = (truthy (req_phoneNumber request) \<and>
                  \<not> list_ex (\<lambda>contact. phoneNumber contact = req_phoneNumber request)
                       existingContacts)
            in hasNewEmail \<or> hasNewPhone))"

text \<open>The result of the create is dropped: the function returns nothing.\<close>

definition createSecondaryContact :: "Env \<Rightarrow> World \<Rightarrow> IdentifyRequest \<Rightarrow> string \<Rightarrow> World" where
  "createSecondaryContact env w request pid =
     (let createParams = \<lparr>cp_phoneNumber = (if truthy (req_phoneNumber request)
                                              then req_phoneNumber request else None),
                           cp_email = (if truthy (req_email request) then req_email request else None),
                           cp_linkedId = Some pid, cp_linkPrecedence = Secondary\<rparr>
      in fst (create env w createParams))"

text \<open>\<^verbatim>\<open>emails.push\<close> under \<^verbatim>\<open>v && !emails.includes(v)\<close>, over the secondaries in order.\<close>

fun pushNew :: "string list \<Rightarrow> string option list \<Rightarrow> string list" where
  "pushNew acc [] = acc"
| "pushNew acc (v # vs) =
     pushNew (case v of None \<Rightarrow> acc
              | Some s \<Rightarrow> if s \<noteq> [] \<and> s \<notin> set acc then acc @ [s] else acc) vs"

definition buildConsolidatedResponse ::
  "World \<Rightarrow> string \<Rightarrow> World \<times> (exn + ConsolidatedContact DbOperationResult)" where
  "buildConsolidatedResponse w pid =
     (case getLinkedContacts w pid of
        (w1, Failure _) \<Rightarrow> (w1, Inr (Failure ''Failed to retrieve linked contacts''))
      | (w1, Success allContacts) \<Rightarrow>
          (case find (\<lambda>c. linkPrecedence c = Primary) allContacts of
             None \<Rightarrow> (w1, Inl TypeError)
           | Some primaryContact \<Rightarrow>
               (let secondaryContacts = filter (\<lambda>c. linkPrecedence c = Secondary) allContacts;
                    emails0 = (if truthy (email primaryContact)
                               then [the (email primaryContact)] else []);
                    phoneNumbers0 = (if truthy (phoneNumber primaryContact)
                                     then [the (phoneNumber primaryContact)] else [])
                in (w1, Inr (Success
                     \<lparr>primaryContactId = cid primaryContact,
                      emails = pushNew emails0 (map email secondaryContacts),
                      phoneNumbers = pushNew phoneNumbers0 (map phoneNumber secondaryContacts),
                      secondaryContactIds = map cid secondaryContacts\<rparr>)))))"

text \<open>The loop that re-points the secondaries among the newer group's contacts.\<close>

fun repointLoop :: "Env \<Rightarrow> World \<Rightarrow> string \<Rightarrow> Contact list \<Rightarrow> World" where
  "repointLoop env w olderId [] = w"
| "repointLoop env w olderId (contact # rest) =
     (if linkPrecedence contact = Secondary then
        repointLoop env
          (fst (update w \<lparr>up_id = cid contact, up_linkedId = Some olderId,
                          up_linkPrecedence = Some Secondary, up_updatedAt = now env\<rparr>))
          olderId rest
      else repointLoop env w olderId rest)"

definition linkTwoPrimaryContacts ::
  "Env \<Rightarrow> World \<Rightarrow> ContactGroup list \<Rightarrow> IdentifyRequest \<Rightarrow>
     World \<times> (exn + ConsolidatedContact DbOperationResult)" where
  "linkTwoPrimaryContacts env w contactGroups request =
     (case contactGroups of
        [group1, group2] \<Rightarrow>
          (let isGroup1Older = (g_createdAt group1 < g_createdAt group2);
               olderGroup = (if isGroup1Older then group1 else group2);
               newerGroup = (if isGroup1Older then group2 else group1)
           in case update w \<lparr>up_id = primaryId newerGroup, up_linkedId = Some (primaryId olderGroup),
                              up_linkPrecedence = Some Secondary, up_updatedAt = now env\<rparr> of
                (w1, Failure _) \<Rightarrow> (w1, Inr (Failure ''Failed to link primary contacts''))
              | (w1, Success _) \<Rightarrow>
                  (let w2 = repointLoop env w1 (primaryId olderGroup) (contacts newerGroup);
                       allContacts = contacts olderGroup @ contacts newerGroup;
                       w3 = (if shouldCreateSecondaryContact request allContacts
                             then createSecondaryContact env w2 request (primaryId olderGroup)
                             else w2)
                   in buildConsolidatedResponse w3 (primaryId olderGroup)))
      | _ \<Rightarrow> (w, Inr (Failure ''Expected exactly 2 contact groups for linking'')))"

text \<open>
  \<^verbatim>\<open>contactGroups.reduce\<close> without an initial value, on a list that is not empty where it
  is called: the first group starts, and a later group replaces the kept one unless the kept
  one is strictly older.
\<close>

definition oldestGroup :: "ContactGroup \<Rightarrow> ContactGroup list \<Rightarrow> ContactGroup" where
  "oldestGroup g gs =
     foldl (\<lambda>oldest current. if g_createdAt oldest < g_createdAt current then oldest else current)
       g gs"

text \<open>The query parameters and the body of the \<^verbatim>\<open>try\<close> block of \<^verbatim>\<open>identifyContact\<close>.\<close>

definition queryParamsOf :: "IdentifyRequest \<Rightarrow> ContactQueryParams" where
  "queryParamsOf request =
     \<lparr>q_email = (if truthy (req_email request) then req_email request else None),
      q_phoneNumber = (if truthy (req_phoneNumber request)
                       then req_phoneNumber request else None)\<rparr>"

definition identifyBody ::
  "Env \<Rightarrow> World \<Rightarrow> IdentifyRequest \<Rightarrow>
     World \<times> (exn + ConsolidatedContact DbOperationResult)" where
  "identifyBody env w request =
     (if \<not> truthy (req_email request) \<and> \<not> truthy (req_phoneNumber request) then
        (w, Inr (Failure ''At least one of email or phoneNumber must be provided''))
      else
        (case findByEmailOrPhone w (queryParamsOf request) of
           (w1, Failure _) \<Rightarrow> (w1, Inr (Failure ''Failed to search for existing contacts''))
         | (w1, Success existingContacts) \<Rightarrow>
             if existingContacts = [] then
               (case createNewPrimaryContact env w1 request of (w2, r) \<Rightarrow> (w2, Inr r))
             else
               (case groupContactsByPrimary w1 existingContacts of
                  (w2, Inl e) \<Rightarrow> (w2, Inl e)
                | (w2, Inr contactGroups) \<Rightarrow>
                    (case contactGroups of
                       [] \<Rightarrow> (w2, Inl TypeError)
                     | [g] \<Rightarrow>
                         (let w3 = (if shouldCreateSecondaryContact request (contacts g)
                                    then createSecondaryContact env w2 request (primaryId g)
                                    else w2)
                          in buildConsolidatedResponse w3 (primaryId g))
                     | [g1, g2] \<Rightarrow> linkTwoPrimaryContacts env w2 contactGroups request
                     | g # gs \<Rightarrow>
                         buildConsolidatedResponse w2 (primaryId (oldestGroup g gs))))))"

text \<open>The \<^verbatim>\<open>catch\<close> block: every exception becomes a failed result.\<close>

definition handled ::
  "World \<times> (exn + ConsolidatedContact DbOperationResult) \<Rightarrow>
     World \<times> ConsolidatedContact DbOperationResult" where
  "handled x =
     (case x of
        (w1, Inl _) \<Rightarrow> (w1, Failure ''Internal server error during contact identification'')
      | (w1, Inr r) \<Rightarrow> (w1, r))"

definition identifyContact ::
  "Env \<Rightarrow> World \<Rightarrow> IdentifyRequest \<Rightarrow> World \<times> ConsolidatedContact DbOperationResult" where
  "identifyContact env w request = handled (identifyBody env w request)"

text \<open>A sequence of calls, one after the other, each with its own environment.\<close>

fun identifyAll :: "World \<Rightarrow> (Env \<times> IdentifyRequest) list \<Rightarrow> World" where
  "identifyAll w [] = w"
| "identifyAll w ((env, request) # rest) = identifyAll (fst (identifyContact env w request)) rest"

definition emptyWorld :: World where
  "emptyWorld = \<lparr>table = [], sent = [], faults = []\<rparr>"

section \<open>Properties read off the store\<close>

text \<open>
  Chain integrity of a table: the \<open>linkedId\<close> of every secondary is the key of an item
  that is a primary.
\<close>

definition linksToPrimary :: "Contact list \<Rightarrow> Contact \<Rightarrow> bool" where
  "linksToPrimary tbl c =
     (case linkPrecedence c of
        Primary \<Rightarrow> True
      | Secondary \<Rightarrow>
          (case linkedId c of
             None \<Rightarrow> False
           | Some l \<Rightarrow> (case getItem l tbl of None \<Rightarrow> False
                        | Some p \<Rightarrow> linkPrecedence p = Primary)))"

definition chainIntegrity :: "Contact list \<Rightarrow> bool" where
  "chainIntegrity tbl = list_all (linksToPrimary tbl) tbl"

text \<open>The requests that write: PutItem and UpdateItem.\<close>

fun isWrite :: "Command \<Rightarrow> bool" where
  "isWrite (PutCommand _) = True"
| "isWrite (UpdateCommand _) = True"
| "isWrite (GetCommand _) = False"
| "isWrite (ScanCommand _) = False"

text \<open>What a reader of the table sees of an item's link.\<close>

definition linkView :: "Contact \<Rightarrow> string \<times> LinkPrecedence \<times> string option" where
  "linkView c = (cid c, linkPrecedence c, linkedId c)"

text \<open>
  What a call sends: \<open>sendsOnly P w w'\<close> says that the requests sent up to \<open>w\<close> are
  still the first ones of \<open>w'\<close>, and that every request sent after them satisfies \<open>P\<close>.
\<close>

definition sendsOnly :: "(Command \<Rightarrow> bool) \<Rightarrow> World \<Rightarrow> World \<Rightarrow> bool" where
  "sendsOnly P w w' =
     (take (length (sent w)) (sent w') = sent w \<and> list_all P (drop (length (sent w)) (sent w')))"

text \<open>
  A group that agrees with a table: its creation time is that of the item its
  \<open>primaryId\<close> names, and its contacts are items of the table.
\<close>

definition groupOfTable :: "Contact list \<Rightarrow> ContactGroup \<Rightarrow> bool" where
  "groupOfTable tbl g =
     (map_option createdAt (getItem (primaryId g) tbl) = Some (g_createdAt g) \<and>
      list_all (\<lambda>c. c \<in> set tbl) (contacts g))"

text \<open>
  A request to the store that neither matches on an empty string nor stores one.
\<close>

fun noEmptyString :: "Command \<Rightarrow> bool" where
  "noEmptyString (PutCommand c) = (email c \<noteq> Some [] \<and> phoneNumber c \<noteq> Some [])"
| "noEmptyString (ScanCommand (EmailOrPhone e p)) = (e \<noteq> Some [] \<and> p \<noteq> Some [])"
| "noEmptyString (ScanCommand (LinkedIdEq k)) = True"
| "noEmptyString (GetCommand k) = True"
| "noEmptyString (UpdateCommand u) = True"

text \<open>
  The consolidated view in the words of the specification: \<open>present\<close> keeps the values
  that are there (not absent, not empty), \<open>dedupe\<close> keeps the first occurrence of each
  value, and \<open>chainSecondaries\<close> are the secondaries linked to a root, in the order of the
  table.
\<close>

definition present :: "string option list \<Rightarrow> string list" where
  "present vs = concat (map (\<lambda>v. case v of None \<Rightarrow> [] | Some s \<Rightarrow> if s \<noteq> [] then [s] else []) vs)"

fun dedupe :: "string list \<Rightarrow> string list" where
  "dedupe [] = []"
| "dedupe (x # xs) = x # dedupe (removeAll x xs)"

definition chainSecondaries :: "Contact list \<Rightarrow> string \<Rightarrow> Contact list" where
  "chainSecondaries tbl pid =
     filter (\<lambda>c. linkedId c = Some pid \<and> linkPrecedence c = Secondary) tbl"

section \<open>Concrete runs\<close>

definition mkEnv :: "string \<Rightarrow> nat \<Rightarrow> nat \<Rightarrow> Env" where
  "mkEnv u t k = \<lparr>uuid = u, now = t, slot = k\<rparr>"

definition mkRequest :: "string \<Rightarrow> string \<Rightarrow> IdentifyRequest" where
  "mkRequest e p = \<lparr>req_email = Some e, req_phoneNumber = Some p\<rparr>"

text \<open>
  Two customers \<open>a\<close> and \<open>b\<close>, then a second phone number for \<open>b\<close>'s email, which
  becomes the secondary \<open>c\<close> of \<open>b\<close>.
\<close>

definition threeContacts :: "(Env \<times> IdentifyRequest) list" where
  "threeContacts =
     [(mkEnv ''a'' 1 0, mkRequest ''e1'' ''p1''),
      (mkEnv ''b'' 2 1, mkRequest ''e2'' ''p2''),
      (mkEnv ''c'' 3 2, mkRequest ''e2'' ''p3'')]"

text \<open>Then a request with \<open>a\<close>'s email and \<open>b\<close>'s phone: it matches \<open>a\<close> and \<open>b\<close>, not \<open>c\<close>.\<close>

definition mergeCall :: "Env \<times> IdentifyRequest" where
  "mergeCall = (mkEnv ''d'' 4 3, mkRequest ''e1'' ''p2'')"

text \<open>The store after the first call, and a request that gives an email only.\<close>

definition contactA :: Contact where
  "contactA = \<lparr>cid = ''a'', phoneNumber = Some ''p1'', email = Some ''e1'', linkedId = None,
               linkPrecedence = Primary, createdAt = 1, updatedAt = 1\<rparr>"

definition emailOnly :: "string \<Rightarrow> IdentifyRequest" where
  "emailOnly e = \<lparr>req_email = Some e, req_phoneNumber = None\<rparr>"

definition storedA :: World where
  "storedA = identifyAll emptyWorld (take 1 threeContacts)"

text \<open>A contact with both fields.\<close>

definition mkContact ::
  "string \<Rightarrow> string \<Rightarrow> string \<Rightarrow> string option \<Rightarrow> LinkPrecedence \<Rightarrow> nat \<Rightarrow> Contact" where
  "mkContact k e p l lp t =
     \<lparr>cid = k, phoneNumber = Some p, email = Some e, linkedId = l, linkPrecedence = lp,
      createdAt = t, updatedAt = t\<rparr>"

text \<open>
  Three calls with the same phone number: the primary \<open>a\<close>, then the secondaries \<open>b\<close> and
  \<open>c\<close>, where the item \<open>c\<close> lands before \<open>b\<close> in the order of the Scan.
\<close>

definition scanOrderCalls :: "(Env \<times> IdentifyRequest) list" where
  "scanOrderCalls =
     [(mkEnv ''a'' 1 0, mkRequest ''e1'' ''p1''),
      (mkEnv ''b'' 2 1, mkRequest ''e2'' ''p1''),
      (mkEnv ''c'' 3 1, mkRequest ''e3'' ''p1'')]"

definition scanOrderStore :: World where
  "scanOrderStore = identifyAll emptyWorld scanOrderCalls"

text \<open>The store after the three calls of \<open>threeContacts\<close>, and its items \<open>b\<close> and \<open>c\<close>.\<close>

definition storedABC :: World where
  "storedABC = identifyAll emptyWorld threeContacts"

definition contactB :: Contact where
  "contactB = mkContact ''b'' ''e2'' ''p2'' None Primary 2"

definition contactC :: Contact where
  "contactC = mkContact ''c'' ''e2'' ''p3'' (Some ''b'') Secondary 3"

text \<open>
  The store after the merge call and a new customer \<open>z\<close>, the item \<open>b\<close> as the merge
  left it, and the groups into which the records matching \<open>(e2, p4)\<close> fall: \<open>b\<close> under
  \<open>a\<close>, \<open>c\<close> under \<open>b\<close>, and \<open>z\<close>.
\<close>

definition storedMerged :: World where
  "storedMerged =
     identifyAll emptyWorld
       (threeContacts @ [mergeCall, (mkEnv ''z'' 5 3, mkRequest ''e4'' ''p4'')])"

definition demotedB :: Contact where
  "demotedB = contactB\<lparr>linkedId := Some ''a'', linkPrecedence := Secondary, updatedAt := 4\<rparr>"

definition mergedGroups :: "ContactGroup list" where
  "mergedGroups =
     [\<lparr>primaryId = ''a'', g_createdAt = 1, contacts = [demotedB]\<rparr>,
      \<lparr>primaryId = ''b'', g_createdAt = 2, contacts = [contactC]\<rparr>,
      \<lparr>primaryId = ''z'', g_createdAt = 5,
        contacts = [mkContact ''z'' ''e4'' ''p4'' None Primary 5]\<rparr>]"

section \<open>Lemmas about the store operations\<close>

lemma sendsOnly_refl: "sendsOnly P w w"
  by (simp add: sendsOnly_def)

lemma sendsOnlyI: "sent w' = sent w @ ops \<Longrightarrow> list_all P ops \<Longrightarrow> sendsOnly P w w'"
  by (simp add: sendsOnly_def)

lemma sendsOnlyD: "sendsOnly P w w' \<Longrightarrow> \<exists>ops. sent w' = sent w @ ops \<and> list_all P ops"
  unfolding sendsOnly_def by (metis append_take_drop_id)

lemma sendsOnly_trans:
  assumes "sendsOnly P w w1" and "sendsOnly P w1 w2"
  shows "sendsOnly P w w2"
proof -
  from assms(1) obtain a where a: "sent w1 = sent w @ a" "list_all P a"
    using sendsOnlyD by blast
  from assms(2) obtain b where b: "sent w2 = sent w1 @ b" "list_all P b"
    using sendsOnlyD by blast
  have "sent w2 = sent w @ (a @ b)" using a b by simp
  moreover have "list_all P (a @ b)" using a b by simp
  ultimately show ?thesis by (rule sendsOnlyI)
qed

lemma sendsOnly_table_update: "sendsOnly P w w' \<Longrightarrow> sendsOnly P w (w'\<lparr>table := t\<rparr>)"
  by (simp add: sendsOnly_def)

lemma send_table: "table (fst (send w cmd)) = table w"
  by (simp add: send_def split: list.splits)

lemma send_sent: "sent (fst (send w cmd)) = sent w @ [cmd]"
  by (simp add: send_def split: list.splits)

lemma send_sendsOnly: "P cmd \<Longrightarrow> sendsOnly P w (fst (send w cmd))"
  by (rule sendsOnlyI [where ops = "[cmd]"]) (simp_all add: send_sent)

lemma send_ok: "faults w = [] \<Longrightarrow> send w cmd = (w\<lparr>sent := sent w @ [cmd]\<rparr>, True)"
  by (simp add: send_def)

lemma getById_table: "table (fst (getById w k)) = table w"
  using send_table [of w "GetCommand k"]
  by (cases "send w (GetCommand k)") (auto simp: getById_def split: option.splits)

lemma getById_sendsOnly: "P (GetCommand k) \<Longrightarrow> sendsOnly P w (fst (getById w k))"
  using send_sendsOnly [of P "GetCommand k" w]
  by (cases "send w (GetCommand k)") (auto simp: getById_def split: option.splits)

lemma find_table: "table (fst (findByEmailOrPhone w q)) = table w"
  using send_table [of w "ScanCommand (EmailOrPhone (q_email q) (q_phoneNumber q))"]
  by (cases "send w (ScanCommand (EmailOrPhone (q_email q) (q_phoneNumber q)))")
     (auto simp: findByEmailOrPhone_def)

lemma find_sendsOnly:
  "P (ScanCommand (EmailOrPhone (q_email q) (q_phoneNumber q))) \<Longrightarrow>
   sendsOnly P w (fst (findByEmailOrPhone w q))"
  using send_sendsOnly [of P "ScanCommand (EmailOrPhone (q_email q) (q_phoneNumber q))" w]
  by (cases "send w (ScanCommand (EmailOrPhone (q_email q) (q_phoneNumber q)))")
     (auto simp: findByEmailOrPhone_def sendsOnly_refl)

lemma getById_tableD: "getById w k = (w1, r) \<Longrightarrow> table w1 = table w"
  using getById_table [of w k] by simp

lemma getById_sendsOnlyD: "getById w k = (w1, r) \<Longrightarrow> P (GetCommand k) \<Longrightarrow> sendsOnly P w w1"
  using getById_sendsOnly [of P k w] by simp

lemma getLinked_table: "table (fst (getLinkedContacts w k)) = table w"
proof (cases "getById w k")
  case (Pair w1 r)
  then have t: "table w1 = table w" by (rule getById_tableD)
  show ?thesis
    using Pair t send_table [of w1 "ScanCommand (LinkedIdEq k)"]
    by (cases "send w1 (ScanCommand (LinkedIdEq k))")
       (auto simp: getLinkedContacts_def split: DbOperationResult.splits)
qed

lemma getLinked_sendsOnly:
  assumes "P (GetCommand k)" and "P (ScanCommand (LinkedIdEq k))"
  shows "sendsOnly P w (fst (getLinkedContacts w k))"
proof (cases "getById w k")
  case (Pair w1 r)
  then have a: "sendsOnly P w w1" using assms(1) by (rule getById_sendsOnlyD)
  have b: "sendsOnly P w1 (fst (send w1 (ScanCommand (LinkedIdEq k))))"
    using assms(2) by (rule send_sendsOnly)
  show ?thesis
    using Pair a sendsOnly_trans [OF a b]
    by (cases "send w1 (ScanCommand (LinkedIdEq k))")
       (auto simp: getLinkedContacts_def split: DbOperationResult.splits)
qed

lemma build_table: "table (fst (buildConsolidatedResponse w k)) = table w"
  using getLinked_table [of w k]
  by (cases "getLinkedContacts w k")
     (auto simp: buildConsolidatedResponse_def Let_def
      split: DbOperationResult.splits option.splits)

lemma build_sendsOnly:
  "P (GetCommand k) \<Longrightarrow> P (ScanCommand (LinkedIdEq k)) \<Longrightarrow>
   sendsOnly P w (fst (buildConsolidatedResponse w k))"
  using getLinked_sendsOnly [of P k w]
  by (cases "getLinkedContacts w k")
     (auto simp: buildConsolidatedResponse_def Let_def
      split: DbOperationResult.splits option.splits)

lemma groupLoop_table: "table (fst (groupLoop w gs cs)) = table w"
proof (induction cs arbitrary: w gs)
  case Nil
  show ?case by simp
next
  case (Cons c cs)
  show ?case
    using Cons.IH
    by (auto split: option.splits prod.splits DbOperationResult.splits dest: getById_tableD)
qed

lemma groupLoop_sendsOnly:
  assumes "\<And>k. P (GetCommand k)"
  shows "sendsOnly P w (fst (groupLoop w gs cs))"
proof (induction cs arbitrary: w gs)
  case Nil
  show ?case by (simp add: sendsOnly_refl)
next
  case (Cons c cs)
  have step: "sendsOnly P w (fst (groupLoop w1 gs' cs))" if "getById w k = (w1, r)" for k w1 r gs'
  proof -
    have "sendsOnly P w w1" using that assms by (rule getById_sendsOnlyD)
    then show ?thesis using Cons.IH sendsOnly_trans by blast
  qed
  have fail: "sendsOnly P w w1" if "getById w k = (w1, r)" for k w1 r
    using that assms by (rule getById_sendsOnlyD)
  show ?case
    using Cons.IH step fail
    by (auto simp: sendsOnly_refl split: option.splits prod.splits DbOperationResult.splits)
qed

lemma handled_fst: "fst (handled x) = fst x"
  by (cases x) (auto simp: handled_def split: sum.splits)

lemma should_not_create:
  assumes "(\<exists>c \<in> set cs. (truthy (req_email r) \<longrightarrow> email c = req_email r) \<and>
                         (truthy (req_phoneNumber r) \<longrightarrow> phoneNumber c = req_phoneNumber r)) \<or>
           ((truthy (req_email r) \<longrightarrow> (\<exists>c \<in> set cs. email c = req_email r)) \<and>
            (truthy (req_phoneNumber r) \<longrightarrow> (\<exists>c \<in> set cs. phoneNumber c = req_phoneNumber r)))"
  shows "\<not> shouldCreateSecondaryContact r cs"
  using assms by (auto simp: shouldCreateSecondaryContact_def Let_def list_ex_iff)

lemma oldestGroup_mem: "oldestGroup g gs \<in> set (g # gs)"
  unfolding oldestGroup_def
proof (induction gs arbitrary: g)
  case Nil
  show ?case by simp
next
  case (Cons h hs)
  show ?case using Cons.IH [of g] Cons.IH [of h] by auto
qed

lemma oldestGroup_le_all: "\<forall>h \<in> set (g # gs). g_createdAt (oldestGroup g gs) \<le> g_createdAt h"
  unfolding oldestGroup_def
proof (induction gs arbitrary: g)
  case Nil
  show ?case by simp
next
  case (Cons x xs)
  let ?k = "if g_createdAt g < g_createdAt x then g else x"
  let ?m = "foldl (\<lambda>oldest current. if g_createdAt oldest < g_createdAt current
                     then oldest else current) ?k xs"
  have ih: "\<forall>h \<in> set (?k # xs). g_createdAt ?m \<le> g_createdAt h" by (rule Cons.IH)
  then have m: "g_createdAt ?m \<le> g_createdAt ?k" by simp
  have "g_createdAt ?k \<le> g_createdAt g" and "g_createdAt ?k \<le> g_createdAt x" by auto
  with m have "g_createdAt ?m \<le> g_createdAt g" and "g_createdAt ?m \<le> g_createdAt x"
    by (meson order_trans)+
  moreover have "\<forall>h \<in> set xs. g_createdAt ?m \<le> g_createdAt h" using ih by simp
  ultimately show ?case by simp
qed

section \<open>Lemmas about the consolidated view\<close>

lemma removeAll_filter: "removeAll x (filter P xs) = filter (\<lambda>y. P y \<and> y \<noteq> x) xs"
  by (induction xs) auto

lemma pushNew_dedupe:
  "pushNew acc vs = acc @ dedupe (filter (\<lambda>s. s \<notin> set acc) (present vs))"
proof (induction vs arbitrary: acc)
  case Nil
  show ?case by (simp add: present_def)
next
  case (Cons v vs)
  have p: "present (v # vs) = (case v of None \<Rightarrow> [] | Some s \<Rightarrow> if s \<noteq> [] then [s] else []) @ present vs"
    by (simp add: present_def)
  show ?case
  proof (cases v)
    case None
    then show ?thesis using Cons.IH [of acc] p by simp
  next
    case (Some s)
    show ?thesis
    proof (cases "s \<noteq> [] \<and> s \<notin> set acc")
      case True
      have "pushNew acc (v # vs) = pushNew (acc @ [s]) vs" using Some True by simp
      also have "\<dots> = (acc @ [s]) @ dedupe (filter (\<lambda>x. x \<notin> set (acc @ [s])) (present vs))"
        by (rule Cons.IH)
      also have "filter (\<lambda>x. x \<notin> set (acc @ [s])) (present vs) =
                 removeAll s (filter (\<lambda>x. x \<notin> set acc) (present vs))"
        by (simp add: removeAll_filter conj_commute)
      finally show ?thesis using Some True p by simp
    next
      case False
      then show ?thesis using Some Cons.IH [of acc] p by auto
    qed
  qed
qed

lemma pushNew_primary_first:
  "pushNew (if truthy v then [the v] else []) vs = dedupe (present (v # vs))"
proof (cases "truthy v")
  case True
  then obtain s where s: "v = Some s" "s \<noteq> []" by (cases v) (auto simp: truthy_def)
  have "filter (\<lambda>x. x \<notin> set [s]) xs = removeAll s xs" for xs
    by (induction xs) auto
  then show ?thesis using s True by (simp add: pushNew_dedupe present_def)
next
  case False
  then have "present (v # vs) = present vs" by (cases v) (auto simp: truthy_def present_def)
  then show ?thesis using False by (simp add: pushNew_dedupe)
qed

lemma getItem_cid: "getItem k tbl = Some c \<Longrightarrow> cid c = k"
  unfolding getItem_def by (induction tbl) (auto split: if_splits)

section \<open>Lemmas about two calls on the empty store\<close>

lemma first_identify:
  assumes "truthy (req_email r) \<or> truthy (req_phoneNumber r)"
  shows "identifyContact e1 emptyWorld r =
     (let q = queryParamsOf r;
          p = \<lparr>cid = uuid e1, phoneNumber = q_phoneNumber q, email = q_email q, linkedId = None,
               linkPrecedence = Primary, createdAt = now e1, updatedAt = now e1\<rparr>
      in (\<lparr>table = [p],
           sent = [ScanCommand (EmailOrPhone (q_email q) (q_phoneNumber q)), PutCommand p],
           faults = []\<rparr>,
          Success \<lparr>primaryContactId = uuid e1,
                   emails = present [q_email q], phoneNumbers = present [q_phoneNumber q],
                   secondaryContactIds = []\<rparr>))"
  using assms
  by (auto simp: identifyContact_def identifyBody_def handled_def emptyWorld_def
      findByEmailOrPhone_def queryParamsOf_def send_def createNewPrimaryContact_def create_def
      putItem_def present_def truthy_def Let_def split: option.splits)

lemma second_identify:
  assumes "truthy (req_email r) \<or> truthy (req_phoneNumber r)"
    and "q = queryParamsOf r"
    and "p = \<lparr>cid = k, phoneNumber = q_phoneNumber q, email = q_email q, linkedId = None,
               linkPrecedence = Primary, createdAt = t, updatedAt = t\<rparr>"
  shows "identifyContact e2 \<lparr>table = [p], sent = s, faults = []\<rparr> r =
     (\<lparr>table = [p],
       sent = s @ [ScanCommand (EmailOrPhone (q_email q) (q_phoneNumber q)), GetCommand k,
                   ScanCommand (LinkedIdEq k)],
       faults = []\<rparr>,
      Success \<lparr>primaryContactId = k,
               emails = present [q_email q], phoneNumbers = present [q_phoneNumber q],
               secondaryContactIds = []\<rparr>)"
  using assms
  by (auto simp: identifyContact_def identifyBody_def handled_def
      findByEmailOrPhone_def queryParamsOf_def send_def matches_def
      groupContactsByPrimary_def hasGroup_def pushContact_def
      shouldCreateSecondaryContact_def buildConsolidatedResponse_def getLinkedContacts_def
      getById_def getItem_def
      present_def truthy_def Let_def split: option.splits)


lemma present_query:
  "present [q_email (queryParamsOf r)] = present [req_email r]"
  "present [q_phoneNumber (queryParamsOf r)] = present [req_phoneNumber r]"
  by (auto simp: present_def queryParamsOf_def truthy_def split: option.splits)

section \<open>Lemmas about falsy request fields\<close>

lemma find_SomeD: "find P xs = Some y \<Longrightarrow> y \<in> set xs \<and> P y"
  by (induction xs) (auto split: if_splits)

lemma shouldCreate_new_information:
  "shouldCreateSecondaryContact r cs =
     ((truthy (req_email r) \<and> \<not> list_ex (\<lambda>c. email c = req_email r) cs) \<or>
      (truthy (req_phoneNumber r) \<and> \<not> list_ex (\<lambda>c. phoneNumber c = req_phoneNumber r) cs))"
  by (auto simp: shouldCreateSecondaryContact_def Let_def list_ex_iff find_None_iff
      dest: find_SomeD)

lemma same_query_fields:
  assumes "queryParamsOf r = queryParamsOf r'"
  shows "truthy (req_email r) = truthy (req_email r')"
    and "truthy (req_phoneNumber r) = truthy (req_phoneNumber r')"
    and "truthy (req_email r) \<Longrightarrow> req_email r = req_email r'"
    and "truthy (req_phoneNumber r) \<Longrightarrow> req_phoneNumber r = req_phoneNumber r'"
proof -
  have e: "(if truthy (req_email r) then req_email r else None) =
           (if truthy (req_email r') then req_email r' else None)"
    using assms unfolding queryParamsOf_def by (rule ContactQueryParams.ext_inject [THEN iffD1, THEN conjunct1])
  have p: "(if truthy (req_phoneNumber r) then req_phoneNumber r else None) =
           (if truthy (req_phoneNumber r') then req_phoneNumber r' else None)"
    using assms unfolding queryParamsOf_def by simp
  show "truthy (req_email r) = truthy (req_email r')"
    using e by (auto simp: truthy_def split: if_splits option.splits)
  show "truthy (req_phoneNumber r) = truthy (req_phoneNumber r')"
    using p by (auto simp: truthy_def split: if_splits option.splits)
  show "truthy (req_email r) \<Longrightarrow> req_email r = req_email r'"
    using e by (auto simp: truthy_def split: if_splits option.splits)
  show "truthy (req_phoneNumber r) \<Longrightarrow> req_phoneNumber r = req_phoneNumber r'"
    using p by (auto simp: truthy_def split: if_splits option.splits)
qed

lemma same_query_createNewPrimary:
  assumes "queryParamsOf r = queryParamsOf r'"
  shows "createNewPrimaryContact env w r = createNewPrimaryContact env w r'"
  using same_query_fields [OF assms] by (auto simp: createNewPrimaryContact_def)

lemma same_query_createSecondary:
  assumes "queryParamsOf r = queryParamsOf r'"
  shows "createSecondaryContact env w r k = createSecondaryContact env w r' k"
  using same_query_fields [OF assms] by (auto simp: createSecondaryContact_def)

lemma same_query_shouldCreate:
  assumes "queryParamsOf r = queryParamsOf r'"
  shows "shouldCreateSecondaryContact r cs = shouldCreateSecondaryContact r' cs"
  using same_query_fields [OF assms] unfolding shouldCreate_new_information by auto

lemma same_query_linkTwo:
  assumes "queryParamsOf r = queryParamsOf r'"
  shows "linkTwoPrimaryContacts env w gs r = linkTwoPrimaryContacts env w gs r'"
  unfolding linkTwoPrimaryContacts_def same_query_shouldCreate [OF assms]
    same_query_createSecondary [OF assms]
  by (rule refl)

lemma same_query_identify:
  assumes "queryParamsOf r = queryParamsOf r'"
  shows "identifyContact env w r = identifyContact env w r'"
proof -
  have "identifyBody env w r = identifyBody env w r'"
    unfolding identifyBody_def assms same_query_fields(1,2) [OF assms]
      same_query_shouldCreate [OF assms] same_query_createSecondary [OF assms]
      same_query_createNewPrimary [OF assms] same_query_linkTwo [OF assms]
    by (rule refl)
  then show ?thesis by (simp add: identifyContact_def)
qed


lemma create_sendsOnly:
  assumes "P (PutCommand \<lparr>cid = uuid env, phoneNumber = cp_phoneNumber ps, email = cp_email ps,
                          linkedId = cp_linkedId ps, linkPrecedence = cp_linkPrecedence ps,
                          createdAt = now env, updatedAt = now env\<rparr>)"
  shows "sendsOnly P w (fst (create env w ps))"
proof -
  let ?c = "\<lparr>cid = uuid env, phoneNumber = cp_phoneNumber ps, email = cp_email ps,
             linkedId = cp_linkedId ps, linkPrecedence = cp_linkPrecedence ps,
             createdAt = now env, updatedAt = now env\<rparr>"
  have "sendsOnly P w (fst (send w (PutCommand ?c)))" using assms by (rule send_sendsOnly)
  then show ?thesis
    by (cases "send w (PutCommand ?c)") (auto simp: create_def Let_def sendsOnly_table_update)
qed

lemma update_sendsOnly:
  assumes "P (UpdateCommand ps)"
  shows "sendsOnly P w (fst (update w ps))"
proof -
  have "sendsOnly P w (fst (send w (UpdateCommand ps)))" using assms by (rule send_sendsOnly)
  then show ?thesis
    by (cases "send w (UpdateCommand ps)") (auto simp: update_def Let_def sendsOnly_table_update)
qed

lemma truthy_not_empty: "(if truthy v then v else None) \<noteq> Some []"
  by (simp add: truthy_def split: option.splits)

lemma createNewPrimary_noEmpty:
  "sendsOnly noEmptyString w (fst (createNewPrimaryContact env w r))"
proof -
  let ?ps = "\<lparr>cp_phoneNumber = (if truthy (req_phoneNumber r) then req_phoneNumber r else None),
              cp_email = (if truthy (req_email r) then req_email r else None),
              cp_linkedId = None, cp_linkPrecedence = Primary\<rparr>"
  have "sendsOnly noEmptyString w (fst (create env w ?ps))"
    by (rule create_sendsOnly) (simp add: truthy_not_empty)
  then show ?thesis
    by (cases "create env w ?ps")
       (auto simp: createNewPrimaryContact_def split: DbOperationResult.splits)
qed

lemma createSecondary_noEmpty:
  "sendsOnly noEmptyString w (createSecondaryContact env w r k)"
  unfolding createSecondaryContact_def Let_def
  by (rule create_sendsOnly) (simp add: truthy_not_empty)

lemma repointLoop_noEmpty: "sendsOnly noEmptyString w (repointLoop env w k cs)"
proof (induction cs arbitrary: w)
  case Nil
  show ?case by (simp add: sendsOnly_refl)
next
  case (Cons c cs)
  let ?u = "\<lparr>up_id = cid c, up_linkedId = Some k, up_linkPrecedence = Some Secondary,
             up_updatedAt = now env\<rparr>"
  have "sendsOnly noEmptyString w (fst (update w ?u))" by (rule update_sendsOnly) simp
  then have "sendsOnly noEmptyString w (repointLoop env (fst (update w ?u)) k cs)"
    using Cons.IH by (rule sendsOnly_trans)
  then show ?case using Cons.IH [of w] by simp
qed

lemma maybeCreateSecondary_noEmpty:
  "sendsOnly noEmptyString w (if b then createSecondaryContact env w r k else w)"
  by (simp add: createSecondary_noEmpty sendsOnly_refl)

lemma build_noEmpty: "sendsOnly noEmptyString w (fst (buildConsolidatedResponse w k))"
  by (rule build_sendsOnly) simp_all

lemma linkTwo_noEmpty:
  "sendsOnly noEmptyString w (fst (linkTwoPrimaryContacts env w gs r))"
proof (cases "\<exists>g1 g2. gs = [g1, g2]")
  case False
  then have "linkTwoPrimaryContacts env w gs r =
               (w, Inr (Failure ''Expected exactly 2 contact groups for linking''))"
    by (auto simp: linkTwoPrimaryContacts_def split: list.splits)
  then show ?thesis by (simp add: sendsOnly_refl)
next
  case True
  then obtain g1 g2 where gs: "gs = [g1, g2]" by blast
  define older where "older = (if g_createdAt g1 < g_createdAt g2 then g1 else g2)"
  define newer where "newer = (if g_createdAt g1 < g_createdAt g2 then g2 else g1)"
  define u where "u = \<lparr>up_id = primaryId newer, up_linkedId = Some (primaryId older),
                       up_linkPrecedence = Some Secondary, up_updatedAt = now env\<rparr>"
  obtain w1 res where upd: "update w u = (w1, res)" by (cases "update w u")
  have a: "sendsOnly noEmptyString w w1"
    using update_sendsOnly [of noEmptyString u w] upd by simp
  show ?thesis
  proof (cases res)
    case (Failure x)
    then show ?thesis
      using a upd by (simp add: linkTwoPrimaryContacts_def gs Let_def older_def newer_def u_def)
  next
    case (Success x)
    define w2 where "w2 = repointLoop env w1 (primaryId older) (contacts newer)"
    define w3 where "w3 = (if shouldCreateSecondaryContact r (contacts older @ contacts newer)
                           then createSecondaryContact env w2 r (primaryId older) else w2)"
    have b: "sendsOnly noEmptyString w1 w2" unfolding w2_def by (rule repointLoop_noEmpty)
    have c: "sendsOnly noEmptyString w2 w3" unfolding w3_def by (rule maybeCreateSecondary_noEmpty)
    have d: "sendsOnly noEmptyString w3 (fst (buildConsolidatedResponse w3 (primaryId older)))"
      by (rule build_noEmpty)
    have "linkTwoPrimaryContacts env w gs r = buildConsolidatedResponse w3 (primaryId older)"
      using upd Success
      by (simp add: linkTwoPrimaryContacts_def gs Let_def older_def newer_def u_def w2_def w3_def)
    then show ?thesis
      using sendsOnly_trans [OF a sendsOnly_trans [OF b sendsOnly_trans [OF c d]]] by simp
  qed
qed

lemma identifyBody_noEmpty: "sendsOnly noEmptyString w (fst (identifyBody env w r))"
proof (cases "\<not> truthy (req_email r) \<and> \<not> truthy (req_phoneNumber r)")
  case True
  then show ?thesis by (simp add: identifyBody_def sendsOnly_refl)
next
  case False
  then have valid: "(\<not> truthy (req_email r) \<and> \<not> truthy (req_phoneNumber r)) = False"
    by simp
  obtain w1 res where f: "findByEmailOrPhone w (queryParamsOf r) = (w1, res)"
    by (cases "findByEmailOrPhone w (queryParamsOf r)")
  have "noEmptyString (ScanCommand (EmailOrPhone (q_email (queryParamsOf r))
                                      (q_phoneNumber (queryParamsOf r))))"
    by (simp add: queryParamsOf_def truthy_not_empty)
  then have a: "sendsOnly noEmptyString w w1"
    using find_sendsOnly [of noEmptyString "queryParamsOf r" w] f by simp
  show ?thesis
  proof (cases res)
    case (Failure x)
    then show ?thesis using valid f a by (auto simp: identifyBody_def sendsOnly_refl)
  next
    case (Success ex)
    show ?thesis
    proof (cases "ex = []")
      case True
      have "sendsOnly noEmptyString w1 (fst (createNewPrimaryContact env w1 r))"
        by (rule createNewPrimary_noEmpty)
      then have "sendsOnly noEmptyString w (fst (createNewPrimaryContact env w1 r))"
        using a sendsOnly_trans by blast
      then show ?thesis
        using valid f Success True
        by (cases "createNewPrimaryContact env w1 r") (auto simp: identifyBody_def sendsOnly_refl)
    next
      case ne: False
      obtain w2 gr where g: "groupContactsByPrimary w1 ex = (w2, gr)"
        by (cases "groupContactsByPrimary w1 ex")
      have "sendsOnly noEmptyString w1 w2"
        using groupLoop_sendsOnly [of noEmptyString w1 "[]" ex] g
        by (simp add: groupContactsByPrimary_def)
      with a have b: "sendsOnly noEmptyString w w2" by (rule sendsOnly_trans)
      have via: "sendsOnly noEmptyString w w'" if "sendsOnly noEmptyString w2 w'" for w'
        using b that by (rule sendsOnly_trans)
      show ?thesis
      proof (cases gr)
        case (Inl e)
        then show ?thesis using valid f Success ne g b by (auto simp: identifyBody_def sendsOnly_refl)
      next
        case (Inr groups)
        have body: "identifyBody env w r =
          (case groups of
             [] \<Rightarrow> (w2, Inl TypeError)
           | [g] \<Rightarrow>
               (let w3 = (if shouldCreateSecondaryContact r (contacts g)
                          then createSecondaryContact env w2 r (primaryId g) else w2)
                in buildConsolidatedResponse w3 (primaryId g))
           | [g1, g2] \<Rightarrow> linkTwoPrimaryContacts env w2 groups r
           | g # gs \<Rightarrow> buildConsolidatedResponse w2 (primaryId (oldestGroup g gs)))"
          using valid f Success ne g Inr by (auto simp: identifyBody_def Let_def)
        have one: "sendsOnly noEmptyString w (fst (buildConsolidatedResponse
                      (createSecondaryContact env w2 r k) k))" for k
          by (rule via, rule sendsOnly_trans [OF createSecondary_noEmpty build_noEmpty])
        have two: "sendsOnly noEmptyString w (fst (linkTwoPrimaryContacts env w2 gs' r))" for gs'
          by (rule via, rule linkTwo_noEmpty)
        have many: "sendsOnly noEmptyString w (fst (buildConsolidatedResponse w2 k))" for k
          by (rule via, rule build_noEmpty)
        show ?thesis
          unfolding body using b one two many by (auto simp: Let_def split: list.splits)
      qed
    qed
  qed
qed

section \<open>Lemmas about calls on a store that answers\<close>

lemma send_faults: "faults w = [] \<Longrightarrow> faults (fst (send w cmd)) = []"
  by (simp add: send_def)

lemma getById_ok:
  "faults w = [] \<Longrightarrow>
   getById w k = (w\<lparr>sent := sent w @ [GetCommand k]\<rparr>,
                  case getItem k (table w) of None \<Rightarrow> Failure ''Contact not found''
                  | Some c \<Rightarrow> Success c)"
  by (simp add: getById_def send_ok split: option.splits)

lemma getById_faults: "faults w = [] \<Longrightarrow> faults (fst (getById w k)) = []"
  by (simp add: getById_ok)

lemma getById_SuccessD:
  "getById w k = (w1, Success c) \<Longrightarrow> getItem k (table w) = Some c"
  using send_table [of w "GetCommand k"]
  by (cases "send w (GetCommand k)") (auto simp: getById_def split: if_splits option.splits)

lemma find_faults: "faults w = [] \<Longrightarrow> faults (fst (findByEmailOrPhone w q)) = []"
  by (simp add: findByEmailOrPhone_def send_ok)

lemma find_SuccessD:
  "findByEmailOrPhone w q = (w1, Success ex) \<Longrightarrow> set ex \<subseteq> set (table w)"
  using send_table [of w "ScanCommand (EmailOrPhone (q_email q) (q_phoneNumber q))"]
  by (cases "send w (ScanCommand (EmailOrPhone (q_email q) (q_phoneNumber q)))")
     (auto simp: findByEmailOrPhone_def split: if_splits)

lemma groupLoop_faults: "faults w = [] \<Longrightarrow> faults (fst (groupLoop w gs cs)) = []"
proof (induction cs arbitrary: w gs)
  case Nil
  then show ?case by simp
next
  case (Cons c cs)
  have "faults (fst (groupLoop w1 gs' cs)) = []" if "getById w k = (w1, r)" for k w1 r gs'
    using that Cons.prems Cons.IH [of w1 gs'] getById_faults [of w k] by simp
  moreover have "faults w1 = []" if "getById w k = (w1, r)" for k w1 r
    using that Cons.prems getById_faults [of w k] by simp
  ultimately show ?case
    using Cons.prems Cons.IH [of w]
    by (auto split: option.splits prod.splits DbOperationResult.splits)
qed

lemma getItem_distinct:
  "distinct (map cid tbl) \<Longrightarrow> c \<in> set tbl \<Longrightarrow> getItem (cid c) tbl = Some c"
  unfolding getItem_def by (induction tbl) (auto simp: image_iff)

lemma pushContact_primaryId: "map primaryId (pushContact gs k c) = map primaryId gs"
  by (simp add: pushContact_def comp_def if_distrib [of primaryId] cong: if_cong)

lemma pushContact_groupOfTable:
  "c \<in> set tbl \<Longrightarrow> list_all (groupOfTable tbl) gs \<Longrightarrow>
   list_all (groupOfTable tbl) (pushContact gs k c)"
  by (induction gs) (auto simp: pushContact_def groupOfTable_def)

lemma groupLoop_sound:
  assumes "distinct (map cid (table w))"
    and "set cs \<subseteq> set (table w)"
    and "list_all (groupOfTable (table w)) gs"
    and "groupLoop w gs cs = (w', Inr gs')"
  shows "list_all (groupOfTable (table w)) gs'"
  using assms
proof (induction cs arbitrary: w gs)
  case Nil
  then show ?case by simp
next
  case (Cons c cs)
  have cin: "c \<in> set (table w)" and rest: "set cs \<subseteq> set (table w)"
    using Cons.prems(2) by auto
  show ?case
  proof (cases "linkPrecedence c = Primary")
    case True
    show ?thesis
    proof (cases "hasGroup gs (cid c)")
      case h: True
      have "groupLoop w (pushContact gs (cid c) c) cs = (w', Inr gs')"
        using Cons.prems(4) True h by simp
      moreover have "list_all (groupOfTable (table w)) (pushContact gs (cid c) c)"
        using cin Cons.prems(3) by (rule pushContact_groupOfTable)
      ultimately show ?thesis using Cons.IH Cons.prems(1) rest by blast
    next
      case h: False
      let ?g = "\<lparr>primaryId = cid c, g_createdAt = createdAt c, contacts = []\<rparr>"
      have "groupLoop w (pushContact (gs @ [?g]) (cid c) c) cs = (w', Inr gs')"
        using Cons.prems(4) True h by simp
      moreover have "groupOfTable (table w) ?g"
        using getItem_distinct [OF Cons.prems(1) cin] by (simp add: groupOfTable_def)
      then have "list_all (groupOfTable (table w)) (pushContact (gs @ [?g]) (cid c) c)"
        using cin Cons.prems(3) by (intro pushContact_groupOfTable) simp_all
      ultimately show ?thesis using Cons.IH Cons.prems(1) rest by blast
    qed
  next
    case False
    then obtain pid where pid: "linkedId c = Some pid"
      using Cons.prems(4) by (cases "linkedId c") auto
    show ?thesis
    proof (cases "hasGroup gs pid")
      case h: True
      have "groupLoop w (pushContact gs pid c) cs = (w', Inr gs')"
        using Cons.prems(4) False pid h by simp
      moreover have "list_all (groupOfTable (table w)) (pushContact gs pid c)"
        using cin Cons.prems(3) by (rule pushContact_groupOfTable)
      ultimately show ?thesis using Cons.IH Cons.prems(1) rest by blast
    next
      case h: False
      obtain w1 res where g: "getById w pid = (w1, res)" by (cases "getById w pid")
      then obtain pc where res: "res = Success pc"
        using Cons.prems(4) False pid h by (cases res) auto
      let ?g = "\<lparr>primaryId = pid, g_createdAt = createdAt pc, contacts = []\<rparr>"
      have t: "table w1 = table w" using g by (rule getById_tableD)
      have "groupLoop w1 (pushContact (gs @ [?g]) pid c) cs = (w', Inr gs')"
        using Cons.prems(4) False pid h g res by simp
      moreover have "groupOfTable (table w) ?g"
        using getById_SuccessD [of w pid w1 pc] g res by (simp add: groupOfTable_def)
      then have "list_all (groupOfTable (table w)) (pushContact (gs @ [?g]) pid c)"
        using cin Cons.prems(3) by (intro pushContact_groupOfTable) simp_all
      ultimately show ?thesis using Cons.IH [of w1] Cons.prems(1) rest t by simp
    qed
  qed
qed

lemma applyUpdate_cid: "cid (applyUpdate u c) = cid c"
  by (simp add: applyUpdate_def)

lemma getItem_updateItem:
  "getItem k (updateItem u tbl) =
     (if k = up_id u then map_option (applyUpdate u) (getItem k tbl) else getItem k tbl)"
  unfolding getItem_def updateItem_def
  by (induction tbl) (auto simp: applyUpdate_cid)

lemma find_append_insert:
  "\<not> P c \<Longrightarrow> find P (take n xs @ c # drop n xs) = find P xs"
proof (induction xs arbitrary: n)
  case Nil
  then show ?case by simp
next
  case (Cons x xs)
  then show ?case by (cases n) auto
qed

lemma getItem_putItem_other:
  "k \<noteq> cid c \<Longrightarrow> getItem k (putItem n c tbl) = getItem k tbl"
proof (cases "cid c \<in> set (map cid tbl)")
  case True
  assume k: "k \<noteq> cid c"
  have "find (\<lambda>x. cid x = k) (map (\<lambda>x. if cid x = cid c then c else x) tbl) =
        find (\<lambda>x. cid x = k) tbl"
    using k by (induction tbl) auto
  then show ?thesis using True by (simp add: getItem_def putItem_def)
next
  case False
  assume k: "k \<noteq> cid c"
  then show ?thesis using False by (simp add: getItem_def putItem_def find_append_insert)
qed

lemma update_ok:
  "faults w = [] \<Longrightarrow>
   update w u = (w\<lparr>sent := sent w @ [UpdateCommand u], table := updateItem u (table w)\<rparr>,
                 Success (getItem (up_id u) (updateItem u (table w))))"
  by (simp add: update_def send_ok Let_def)

lemma update_getItem_other:
  "k \<noteq> up_id u \<Longrightarrow> getItem k (table (fst (update w u))) = getItem k (table w)"
  using send_table [of w "UpdateCommand u"]
  by (cases "send w (UpdateCommand u)") (auto simp: update_def Let_def getItem_updateItem)

lemma update_faults: "faults w = [] \<Longrightarrow> faults (fst (update w u)) = []"
  by (simp add: update_ok)

lemma repointLoop_faults: "faults w = [] \<Longrightarrow> faults (repointLoop env w k cs) = []"
  by (induction cs arbitrary: w) (auto simp: update_faults)

lemma repointLoop_getItem_other:
  "\<forall>c \<in> set cs. linkPrecedence c = Secondary \<longrightarrow> cid c \<noteq> k \<Longrightarrow>
   getItem k (table (repointLoop env w x cs)) = getItem k (table w)"
  by (induction cs arbitrary: w) (auto simp: update_getItem_other)

lemma create_getItem_other:
  "k \<noteq> uuid env \<Longrightarrow> getItem k (table (fst (create env w ps))) = getItem k (table w)"
proof -
  let ?c = "\<lparr>cid = uuid env, phoneNumber = cp_phoneNumber ps, email = cp_email ps,
             linkedId = cp_linkedId ps, linkPrecedence = cp_linkPrecedence ps,
             createdAt = now env, updatedAt = now env\<rparr>"
  assume "k \<noteq> uuid env"
  then show ?thesis
    using send_table [of w "PutCommand ?c"]
    by (cases "send w (PutCommand ?c)") (auto simp: create_def Let_def getItem_putItem_other)
qed

lemma create_faults: "faults w = [] \<Longrightarrow> faults (fst (create env w ps)) = []"
  by (simp add: create_def send_ok Let_def)

lemma getLinked_ok:
  assumes "faults w = []" and "getItem k (table w) = Some p"
  shows "getLinkedContacts w k =
           (w\<lparr>sent := sent w @ [GetCommand k, ScanCommand (LinkedIdEq k)]\<rparr>,
            Success (p # filter (\<lambda>c. linkedId c = Some k) (table w)))"
  using assms by (simp add: getLinkedContacts_def getById_ok send_ok)

lemma createSecondary_getItem_other:
  "k \<noteq> uuid env \<Longrightarrow>
   getItem k (table (createSecondaryContact env w r pid)) = getItem k (table w)"
  by (simp add: createSecondaryContact_def Let_def create_getItem_other)

lemma createSecondary_faults:
  "faults w = [] \<Longrightarrow> faults (createSecondaryContact env w r pid) = []"
  by (simp add: createSecondaryContact_def Let_def create_faults)

lemma getItem_mem: "getItem k tbl = Some c \<Longrightarrow> c \<in> set tbl"
  unfolding getItem_def by (induction tbl) (auto split: if_splits)

lemma getItem_in_ids: "getItem k tbl = Some c \<Longrightarrow> k \<in> set (map cid tbl)"
  unfolding getItem_def by (induction tbl) (auto split: if_splits)

lemma build_of_primary:
  assumes ok: "faults w = []"
    and root: "getItem pid (table w) = Some p"
    and prim: "linkPrecedence p = Primary"
  shows "buildConsolidatedResponse w pid =
           (w\<lparr>sent := sent w @ [GetCommand pid, ScanCommand (LinkedIdEq pid)]\<rparr>,
            Inr (Success
             \<lparr>primaryContactId = pid,
              emails = dedupe (present (email p # map email (chainSecondaries (table w) pid))),
              phoneNumbers =
                dedupe (present (phoneNumber p # map phoneNumber (chainSecondaries (table w) pid))),
              secondaryContactIds = map cid (chainSecondaries (table w) pid)\<rparr>))"
  using prim getItem_cid [OF root]
  by (simp add: buildConsolidatedResponse_def Let_def getLinked_ok [OF ok root]
      chainSecondaries_def pushNew_primary_first del: pushNew.simps)

section \<open>Results\<close>

text \<open>
  C1 (the code at a failing input). From the empty store, the three calls of
  \<open>threeContacts\<close> followed by \<open>mergeCall\<close> leave a table that breaks chain integrity:
  the secondary \<open>c\<close> is linked to \<open>b\<close>, which the merge has made a secondary.
\<close>

theorem chain_integrity_broken_by_merge:
  "chainIntegrity (table (identifyAll emptyWorld threeContacts)) \<and>
   \<not> chainIntegrity (table (identifyAll emptyWorld (threeContacts @ [mergeCall])))"
  by code_simp

text \<open>
  C2 (the code at a failing input). Before the merge call \<open>c\<close> is a secondary of the
  primary \<open>b\<close>. The merge call answers with \<open>a\<close> as primary and demotes \<open>b\<close> under \<open>a\<close>,
  and \<open>c\<close>, which the request did not match, still has \<open>linkedId = b\<close>.
\<close>

theorem unmatched_member_not_repointed:
  "map linkView (table (identifyAll emptyWorld threeContacts)) =
     [(''a'', Primary, None), (''b'', Primary, None), (''c'', Secondary, Some ''b'')] \<and>
   snd (identifyContact (fst mergeCall) (identifyAll emptyWorld threeContacts) (snd mergeCall)) =
     Success \<lparr>primaryContactId = ''a'', emails = [''e1'', ''e2''],
              phoneNumbers = [''p1'', ''p2''], secondaryContactIds = [''b'']\<rparr> \<and>
   map linkView (table (fst (identifyContact (fst mergeCall)
       (identifyAll emptyWorld threeContacts) (snd mergeCall)))) =
     [(''a'', Primary, None), (''b'', Secondary, Some ''a''), (''c'', Secondary, Some ''b'')]"
  by code_simp

text \<open>
  C3. On a store that answers, with distinct keys and a fresh uuid, when the matched records
  fall into exactly two groups whose roots \<open>older\<close> and \<open>newer\<close> are stored primaries
  with \<open>createdAt older < createdAt newer\<close>, in whichever order the groups come: the call
  succeeds with \<open>primaryContactId = cid older\<close>; afterwards the newer root is stored as a
  secondary with \<open>linkedId = cid older\<close> and \<open>updatedAt\<close> the clock reading of the call, its
  other fields unchanged; and the older root is stored unchanged.
\<close>

theorem older_chain_stays_primary:
  assumes ok: "faults w = []"
    and ids: "distinct (map cid (table w))"
    and fresh: "uuid env \<notin> set (map cid (table w))"
    and find: "findByEmailOrPhone w (queryParamsOf request) = (w1, Success existingContacts)"
    and ne: "existingContacts \<noteq> []"
    and grp: "groupContactsByPrimary w1 existingContacts = (w2, Inr gs)"
    and two: "gs = [go, gn] \<or> gs = [gn, go]"
    and rootO: "getItem (primaryId go) (table w) = Some older"
    and rootN: "getItem (primaryId gn) (table w) = Some newer"
    and primO: "linkPrecedence older = Primary"
    and primN: "linkPrecedence newer = Primary"
    and age: "createdAt older < createdAt newer"
  shows "(\<exists>c. snd (identifyContact env w request) = Success c \<and>
              primaryContactId c = cid older) \<and>
         getItem (cid newer) (table (fst (identifyContact env w request))) =
           Some (newer\<lparr>linkedId := Some (cid older), linkPrecedence := Secondary,
                        updatedAt := now env\<rparr>) \<and>
         getItem (cid older) (table (fst (identifyContact env w request))) = Some older"
proof -
  have valid: "truthy (req_email request) \<or> truthy (req_phoneNumber request)"
    using find ne by (auto simp: findByEmailOrPhone_def queryParamsOf_def truthy_def split: if_splits)
  have t1: "table w1 = table w" using find_table [of w "queryParamsOf request"] find by simp
  have t2: "table w2 = table w"
    using groupLoop_table [of w1 "[]" existingContacts] grp t1
    by (simp add: groupContactsByPrimary_def)
  have f1: "faults w1 = []" using find_faults [OF ok, of "queryParamsOf request"] find by simp
  have f2: "faults w2 = []"
    using groupLoop_faults [OF f1, of "[]" existingContacts] grp
    by (simp add: groupContactsByPrimary_def)
  have sub: "set existingContacts \<subseteq> set (table w1)"
    using find_SuccessD [OF find] t1 by simp
  have sound: "list_all (groupOfTable (table w)) gs"
    using groupLoop_sound [of w1 existingContacts "[]" w2 gs] ids sub grp t1
    by (simp add: groupContactsByPrimary_def)
  have go: "groupOfTable (table w) go" and gn: "groupOfTable (table w) gn"
    using sound two by auto
  have idO: "cid older = primaryId go" using rootO by (rule getItem_cid)
  have idN: "cid newer = primaryId gn" using rootN by (rule getItem_cid)
  have cO: "g_createdAt go = createdAt older" using go rootO by (simp add: groupOfTable_def)
  have cN: "g_createdAt gn = createdAt newer" using gn rootN by (simp add: groupOfTable_def)
  have neq: "cid older \<noteq> cid newer"
  proof
    assume "cid older = cid newer"
    then have "older = newer" using rootO rootN idO idN by simp
    then show False using age by simp
  qed
  have notO: "cid c \<noteq> cid older" and notN: "cid c \<noteq> cid newer"
    if "c \<in> set (table w)" and "linkPrecedence c = Secondary" for c
  proof -
    have c: "getItem (cid c) (table w) = Some c" using ids that(1) by (rule getItem_distinct)
    show "cid c \<noteq> cid older"
    proof
      assume "cid c = cid older"
      then have "c = older" using c rootO idO by simp
      then show False using that(2) primO by simp
    qed
    show "cid c \<noteq> cid newer"
    proof
      assume "cid c = cid newer"
      then have "c = newer" using c rootN idN by simp
      then show False using that(2) primN by simp
    qed
  qed
  have members: "set (contacts gn) \<subseteq> set (table w)"
    using gn by (auto simp: groupOfTable_def list_all_iff)
  have freshO: "cid older \<noteq> uuid env" and freshN: "cid newer \<noteq> uuid env"
    using fresh getItem_in_ids [OF rootO] getItem_in_ids [OF rootN] idO idN by auto
  define u where "u = \<lparr>up_id = cid newer, up_linkedId = Some (cid older),
                       up_linkPrecedence = Some Secondary, up_updatedAt = now env\<rparr>"
  define w3 where "w3 = w2\<lparr>sent := sent w2 @ [UpdateCommand u], table := updateItem u (table w2)\<rparr>"
  define w4 where "w4 = repointLoop env w3 (cid older) (contacts gn)"
  define w5 where "w5 = (if shouldCreateSecondaryContact request (contacts go @ contacts gn)
                         then createSecondaryContact env w4 request (cid older) else w4)"
  define demoted where "demoted = newer\<lparr>linkedId := Some (cid older), linkPrecedence := Secondary,
                        updatedAt := now env\<rparr>"
  have upd: "update w2 u = (w3, Success (getItem (up_id u) (updateItem u (table w2))))"
    using update_ok [OF f2, of u] by (simp add: w3_def)
  have link: "linkTwoPrimaryContacts env w2 gs request = buildConsolidatedResponse w5 (cid older)"
    using two
  proof
    assume "gs = [go, gn]"
    then show ?thesis
      using upd age cO cN
      by (simp add: linkTwoPrimaryContacts_def Let_def u_def idO idN w4_def w5_def)
  next
    assume "gs = [gn, go]"
    then show ?thesis
      using upd age cO cN
      by (simp add: linkTwoPrimaryContacts_def Let_def u_def idO idN w4_def w5_def)
  qed
  have f3: "faults w3 = []" using f2 by (simp add: w3_def)
  have f4: "faults w4 = []" unfolding w4_def using f3 by (rule repointLoop_faults)
  have f5: "faults w5 = []" unfolding w5_def using f4 by (simp add: createSecondary_faults)
  have n3: "getItem (cid newer) (table w3) = Some demoted"
    using rootN idN t2
    by (simp add: w3_def getItem_updateItem u_def applyUpdate_def demoted_def)
  have o3: "getItem (cid older) (table w3) = Some older"
    using rootO idO t2 neq by (simp add: w3_def getItem_updateItem u_def)
  have n4: "getItem (cid newer) (table w4) = Some demoted"
    unfolding w4_def using notN members n3 by (subst repointLoop_getItem_other) auto
  have o4: "getItem (cid older) (table w4) = Some older"
    unfolding w4_def using notO members o3 by (subst repointLoop_getItem_other) auto
  have n5: "getItem (cid newer) (table w5) = Some demoted"
    unfolding w5_def using n4 freshN by (simp add: createSecondary_getItem_other)
  have o5: "getItem (cid older) (table w5) = Some older"
    unfolding w5_def using o4 freshO by (simp add: createSecondary_getItem_other)
  have body: "identifyBody env w request = buildConsolidatedResponse w5 (cid older)"
    using valid find ne grp two link by (auto simp: identifyBody_def)
  have resp: "\<exists>c. snd (buildConsolidatedResponse w5 (cid older)) = Inr (Success c) \<and>
                  primaryContactId c = cid older"
    using primO by (simp add: buildConsolidatedResponse_def getLinked_ok [OF f5 o5] Let_def)
  then obtain c where c: "snd (buildConsolidatedResponse w5 (cid older)) = Inr (Success c)"
    and pc: "primaryContactId c = cid older" by blast
  have "snd (identifyContact env w request) = Success c"
    using c by (cases "buildConsolidatedResponse w5 (cid older)")
               (simp add: identifyContact_def body handled_def)
  moreover have "table (fst (identifyContact env w request)) = table w5"
    by (simp add: identifyContact_def body handled_fst build_table)
  ultimately show ?thesis using pc n5 o5 by (auto simp: demoted_def)
qed

theorem older_chain_stays_primary_witness:
  "createdAt contactA < createdAt contactB \<and>
   getItem ''a'' (table storedABC) = Some contactA \<and>
   getItem ''b'' (table storedABC) = Some contactB \<and>
   (\<exists>c. snd (identifyContact (mkEnv ''d'' 4 3) storedABC (mkRequest ''e1'' ''p3'')) = Success c \<and>
        primaryContactId c = ''a'') \<and>
   getItem ''b'' (table (fst (identifyContact (mkEnv ''d'' 4 3) storedABC (mkRequest ''e1'' ''p3'')))) =
     Some (contactB\<lparr>linkedId := Some ''a'', linkPrecedence := Secondary, updatedAt := 4\<rparr>) \<and>
   getItem ''a'' (table (fst (identifyContact (mkEnv ''d'' 4 3) storedABC (mkRequest ''e1'' ''p3'')))) =
     Some contactA"
proof -
  let ?r = "mkRequest ''e1'' ''p3''"
  let ?e = "mkEnv ''d'' 4 3"
  let ?w1 = "fst (findByEmailOrPhone storedABC (queryParamsOf ?r))"
  let ?w2 = "fst (groupContactsByPrimary ?w1 [contactA, contactC])"
  let ?go = "\<lparr>primaryId = ''a'', g_createdAt = 1, contacts = [contactA]\<rparr>"
  let ?gn = "\<lparr>primaryId = ''b'', g_createdAt = 2, contacts = [contactC]\<rparr>"
  have ok: "faults storedABC = []" by code_simp
  have ids: "distinct (map cid (table storedABC))" by code_simp
  have fresh: "uuid ?e \<notin> set (map cid (table storedABC))" by code_simp
  have find: "findByEmailOrPhone storedABC (queryParamsOf ?r) = (?w1, Success [contactA, contactC])"
    by code_simp
  have ne: "[contactA, contactC] \<noteq> []" by simp
  have grp: "groupContactsByPrimary ?w1 [contactA, contactC] = (?w2, Inr [?go, ?gn])"
    by code_simp
  have two: "[?go, ?gn] = [?go, ?gn] \<or> [?go, ?gn] = [?gn, ?go]" by simp
  have rootO: "getItem (primaryId ?go) (table storedABC) = Some contactA" by code_simp
  have rootN: "getItem (primaryId ?gn) (table storedABC) = Some contactB" by code_simp
  have primO: "linkPrecedence contactA = Primary" by (simp add: contactA_def)
  have primN: "linkPrecedence contactB = Primary" by (simp add: contactB_def mkContact_def)
  have age: "createdAt contactA < createdAt contactB"
    by (simp add: contactA_def contactB_def mkContact_def)
  have a: "cid contactA = ''a''" by (simp add: contactA_def)
  have b: "cid contactB = ''b''" by (simp add: contactB_def mkContact_def)
  have n: "now ?e = 4" by (simp add: mkEnv_def)
  have "(\<exists>c. snd (identifyContact ?e storedABC ?r) = Success c \<and> primaryContactId c = ''a'') \<and>
   getItem ''b'' (table (fst (identifyContact ?e storedABC ?r))) =
     Some (contactB\<lparr>linkedId := Some ''a'', linkPrecedence := Secondary, updatedAt := 4\<rparr>) \<and>
   getItem ''a'' (table (fst (identifyContact ?e storedABC ?r))) = Some contactA"
    using older_chain_stays_primary [OF ok ids fresh find ne grp two rootO rootN primO primN age]
    unfolding a b n .
  moreover have "getItem ''a'' (table storedABC) = Some contactA" using rootO by simp
  moreover have "getItem ''b'' (table storedABC) = Some contactB" using rootN by simp
  ultimately show ?thesis using age by blast
qed

text \<open>
  C4, as the code has it. For a root \<open>pid\<close> that is a stored primary, with the store
  answering, the consolidated view has the primary's email first (when it has one), then
  the emails of the secondaries in the order in which the Scan returns them, each value kept
  at its first occurrence; the same for the phone numbers; and the ids of the secondaries in
  the order of the Scan. No step orders the secondaries by \<open>createdAt\<close>.
\<close>

theorem consolidated_order:
  assumes ok: "faults w = []"
    and root: "getItem pid (table w) = Some p"
    and prim: "linkPrecedence p = Primary"
  shows "snd (buildConsolidatedResponse w pid) =
           Inr (Success
             \<lparr>primaryContactId = pid,
              emails = dedupe (present (email p # map email (chainSecondaries (table w) pid))),
              phoneNumbers =
                dedupe (present (phoneNumber p # map phoneNumber (chainSecondaries (table w) pid))),
              secondaryContactIds = map cid (chainSecondaries (table w) pid)\<rparr>)"
proof -
  have g: "getById w pid = (w\<lparr>sent := sent w @ [GetCommand pid]\<rparr>, Success p)"
    using ok root by (simp add: getById_def send_ok)
  have l: "getLinkedContacts w pid =
             (w\<lparr>sent := sent w @ [GetCommand pid, ScanCommand (LinkedIdEq pid)]\<rparr>,
              Success (p # filter (\<lambda>c. linkedId c = Some pid) (table w)))"
    using ok by (simp add: getLinkedContacts_def g send_ok)
  show ?thesis
    using prim getItem_cid [OF root]
    by (simp add: buildConsolidatedResponse_def Let_def l chainSecondaries_def
          pushNew_primary_first del: pushNew.simps)
qed


theorem consolidated_order_witness:
  "faults scanOrderStore = [] \<and>
   getItem ''a'' (table scanOrderStore) = Some (mkContact ''a'' ''e1'' ''p1'' None Primary 1) \<and>
   map cid (table scanOrderStore) = [''a'', ''c'', ''b''] \<and>
   snd (buildConsolidatedResponse scanOrderStore ''a'') =
     Inr (Success \<lparr>primaryContactId = ''a'', emails = [''e1'', ''e3'', ''e2''],
                   phoneNumbers = [''p1''], secondaryContactIds = [''c'', ''b'']\<rparr>)"
proof -
  let ?p = "mkContact ''a'' ''e1'' ''p1'' None Primary 1"
  have ok: "faults scanOrderStore = []" by code_simp
  have root: "getItem ''a'' (table scanOrderStore) = Some ?p" by code_simp
  have prim: "linkPrecedence ?p = Primary" by (simp add: mkContact_def)
  have ids: "map cid (table scanOrderStore) = [''a'', ''c'', ''b'']" by code_simp
  have e: "dedupe (present (email ?p # map email (chainSecondaries (table scanOrderStore) ''a''))) =
             [''e1'', ''e3'', ''e2'']" by code_simp
  have ph: "dedupe (present (phoneNumber ?p #
              map phoneNumber (chainSecondaries (table scanOrderStore) ''a''))) = [''p1'']"
    by code_simp
  have s: "map cid (chainSecondaries (table scanOrderStore) ''a'') = [''c'', ''b'']" by code_simp
  have "snd (buildConsolidatedResponse scanOrderStore ''a'') =
     Inr (Success \<lparr>primaryContactId = ''a'', emails = [''e1'', ''e3'', ''e2''],
                   phoneNumbers = [''p1''], secondaryContactIds = [''c'', ''b'']\<rparr>)"
    using consolidated_order [OF ok root prim] unfolding e ph s .
  with ok root ids show ?thesis by blast
qed

text \<open>
  C4 with the order by \<open>createdAt\<close> does not hold. In the third call of
  \<open>scanOrderCalls\<close> the answer lists \<open>c\<close> (created at 3) before \<open>b\<close> (created at 2),
  and \<open>e3\<close> before \<open>e2\<close>.
\<close>

theorem secondaries_not_in_createdAt_order:
  "snd (identifyContact (mkEnv ''c'' 3 1) (identifyAll emptyWorld (take 2 scanOrderCalls))
         (mkRequest ''e3'' ''p1'')) =
     Success \<lparr>primaryContactId = ''a'', emails = [''e1'', ''e3'', ''e2''],
              phoneNumbers = [''p1''], secondaryContactIds = [''c'', ''b'']\<rparr> \<and>
   map_option createdAt (getItem ''c'' (table scanOrderStore)) = Some 3 \<and>
   map_option createdAt (getItem ''b'' (table scanOrderStore)) = Some 2 \<and>
   map_option email (getItem ''c'' (table scanOrderStore)) = Some (Some ''e3'') \<and>
   map_option email (getItem ''b'' (table scanOrderStore)) = Some (Some ''e2'')"
  by code_simp

text \<open>
  C5 (the code at a failing input). With the primary \<open>a\<close> stored, the request
  \<open>(e9, p1)\<close> brings a new email; the Scan succeeds and the PutItem of the secondary
  throws. The call still answers with success, and the table has no new item.
  Likewise, when a request matches \<open>a\<close> and \<open>c\<close> and the UpdateItem that re-points \<open>c\<close>
  throws, the call answers with success and \<open>c\<close> keeps its link to the demoted \<open>b\<close>.
\<close>

theorem store_failure_swallowed:
  "(let w = (identifyAll emptyWorld (take 1 threeContacts))\<lparr>faults := [False, True]\<rparr>;
        (w', r) = identifyContact (mkEnv ''s'' 5 1) w (mkRequest ''e9'' ''p1'')
    in r = Success \<lparr>primaryContactId = ''a'', emails = [''e1''], phoneNumbers = [''p1''],
                    secondaryContactIds = []\<rparr> \<and>
       table w' = table w \<and>
       filter isWrite (drop (length (sent w)) (sent w')) =
         [PutCommand \<lparr>cid = ''s'', phoneNumber = Some ''p1'', email = Some ''e9'',
                      linkedId = Some ''a'', linkPrecedence = Secondary,
                      createdAt = 5, updatedAt = 5\<rparr>]) \<and>
   (let w = (identifyAll emptyWorld threeContacts)\<lparr>faults := [False, False, False, True]\<rparr>;
        (w', r) = identifyContact (mkEnv ''s'' 5 1) w (mkRequest ''e1'' ''p3'')
    in r = Success \<lparr>primaryContactId = ''a'', emails = [''e1'', ''e2''],
                    phoneNumbers = [''p1'', ''p2''], secondaryContactIds = [''b'']\<rparr> \<and>
       map linkView (table w') =
         [(''a'', Primary, None), (''b'', Secondary, Some ''a''), (''c'', Secondary, Some ''b'')])"
  by code_simp

text \<open>
  C6. For a request with a non-empty email or phone number, the first call on the empty store
  answers with the new primary and no secondaries, the second call with the same request
  gives the same answer, the table still holds the one record, and the second call sends
  reads only.
\<close>

theorem identify_twice_idempotent:
  assumes "truthy (req_email r) \<or> truthy (req_phoneNumber r)"
  shows "snd (identifyContact e1 emptyWorld r) =
           Success \<lparr>primaryContactId = uuid e1, emails = present [req_email r],
                    phoneNumbers = present [req_phoneNumber r], secondaryContactIds = []\<rparr> \<and>
         snd (identifyContact e2 (fst (identifyContact e1 emptyWorld r)) r) =
           snd (identifyContact e1 emptyWorld r) \<and>
         table (fst (identifyContact e2 (fst (identifyContact e1 emptyWorld r)) r)) =
           table (fst (identifyContact e1 emptyWorld r)) \<and>
         length (table (fst (identifyContact e1 emptyWorld r))) = 1 \<and>
         sendsOnly (\<lambda>c. \<not> isWrite c) (fst (identifyContact e1 emptyWorld r))
           (fst (identifyContact e2 (fst (identifyContact e1 emptyWorld r)) r))"
proof -
  define q where "q = queryParamsOf r"
  define p where "p = \<lparr>cid = uuid e1, phoneNumber = q_phoneNumber q, email = q_email q,
     linkedId = None, linkPrecedence = Primary, createdAt = now e1, updatedAt = now e1\<rparr>"
  define s where "s = [ScanCommand (EmailOrPhone (q_email q) (q_phoneNumber q)), PutCommand p]"
  define c where "c = \<lparr>primaryContactId = uuid e1, emails = present [req_email r],
                    phoneNumbers = present [req_phoneNumber r], secondaryContactIds = []\<rparr>"
  have one: "identifyContact e1 emptyWorld r = (\<lparr>table = [p], sent = s, faults = []\<rparr>, Success c)"
    using first_identify [OF assms, of e1]
    by (simp add: Let_def q_def p_def s_def c_def present_query)
  have two: "identifyContact e2 \<lparr>table = [p], sent = s, faults = []\<rparr> r =
     (\<lparr>table = [p],
       sent = s @ [ScanCommand (EmailOrPhone (q_email q) (q_phoneNumber q)), GetCommand (uuid e1),
                   ScanCommand (LinkedIdEq (uuid e1))],
       faults = []\<rparr>, Success c)"
    using second_identify [OF assms q_def p_def, of e2 s]
    by (simp add: c_def q_def present_query)
  show ?thesis
    unfolding one fst_conv snd_conv two
    by (simp add: c_def sendsOnly_def)
qed

theorem identify_twice_idempotent_witness:
  "truthy (req_email (emailOnly ''e1'')) \<and>
   snd (identifyContact (mkEnv ''a'' 1 0) emptyWorld (emailOnly ''e1'')) =
     Success \<lparr>primaryContactId = ''a'', emails = [''e1''], phoneNumbers = [],
              secondaryContactIds = []\<rparr> \<and>
   snd (identifyContact (mkEnv ''b'' 2 0)
          (fst (identifyContact (mkEnv ''a'' 1 0) emptyWorld (emailOnly ''e1''))) (emailOnly ''e1'')) =
     Success \<lparr>primaryContactId = ''a'', emails = [''e1''], phoneNumbers = [],
              secondaryContactIds = []\<rparr> \<and>
   length (table (fst (identifyContact (mkEnv ''b'' 2 0)
          (fst (identifyContact (mkEnv ''a'' 1 0) emptyWorld (emailOnly ''e1'')))
          (emailOnly ''e1'')))) = 1"
proof -
  have t: "truthy (req_email (emailOnly ''e1''))" by (simp add: emailOnly_def truthy_def)
  then have h: "truthy (req_email (emailOnly ''e1'')) \<or> truthy (req_phoneNumber (emailOnly ''e1''))"
    by (rule disjI1)
  have u: "uuid (mkEnv ''a'' 1 0) = ''a''" by (simp add: mkEnv_def)
  have pe: "present [req_email (emailOnly ''e1'')] = [''e1'']"
    by (simp add: present_def emailOnly_def)
  have pp: "present [req_phoneNumber (emailOnly ''e1'')] = []"
    by (simp add: present_def emailOnly_def)
  show ?thesis
    using t identify_twice_idempotent [OF h, of "mkEnv ''a'' 1 0" "mkEnv ''b'' 2 0"]
    unfolding u pe pp by simp
qed

text \<open>
  C7. In the single-chain case (the matching read succeeds with records that all fall into
  one group \<open>g\<close>), when some member of the group agrees with the request on every field
  the request supplies, or every supplied email and phone is on some member, the call is the
  consolidated view of that chain and nothing else: the table is unchanged and every request
  sent to the store is a read.
\<close>

theorem no_new_information_no_write:
  assumes find: "findByEmailOrPhone w (queryParamsOf request) = (w1, Success existingContacts)"
    and ne: "existingContacts \<noteq> []"
    and grp: "groupContactsByPrimary w1 existingContacts = (w2, Inr [g])"
    and known:
      "(\<exists>c \<in> set (contacts g).
          (truthy (req_email request) \<longrightarrow> email c = req_email request) \<and>
          (truthy (req_phoneNumber request) \<longrightarrow> phoneNumber c = req_phoneNumber request)) \<or>
       ((truthy (req_email request) \<longrightarrow> (\<exists>c \<in> set (contacts g). email c = req_email request)) \<and>
        (truthy (req_phoneNumber request) \<longrightarrow>
           (\<exists>c \<in> set (contacts g). phoneNumber c = req_phoneNumber request)))"
  shows "identifyContact env w request = handled (buildConsolidatedResponse w2 (primaryId g)) \<and>
         table (fst (identifyContact env w request)) = table w \<and>
         sendsOnly (\<lambda>c. \<not> isWrite c) w (fst (identifyContact env w request))"
proof -
  have valid: "truthy (req_email request) \<or> truthy (req_phoneNumber request)"
    using find ne by (auto simp: findByEmailOrPhone_def queryParamsOf_def truthy_def split: if_splits)
  have no: "\<not> shouldCreateSecondaryContact request (contacts g)"
    using known by (rule should_not_create)
  have body: "identifyBody env w request = buildConsolidatedResponse w2 (primaryId g)"
    using valid find ne grp no by (auto simp: identifyBody_def)
  have t1: "table w1 = table w" using find_table [of w "queryParamsOf request"] find by simp
  have t2: "table w2 = table w1"
    using groupLoop_table [of w1 "[]" existingContacts] grp by (simp add: groupContactsByPrimary_def)
  have s1: "sendsOnly (\<lambda>c. \<not> isWrite c) w w1"
    using find_sendsOnly [of "\<lambda>c. \<not> isWrite c" "queryParamsOf request" w] find by simp
  have s2: "sendsOnly (\<lambda>c. \<not> isWrite c) w1 w2"
    using groupLoop_sendsOnly [of "\<lambda>c. \<not> isWrite c" w1 "[]" existingContacts] grp
    by (simp add: groupContactsByPrimary_def)
  have s3: "sendsOnly (\<lambda>c. \<not> isWrite c) w2 (fst (buildConsolidatedResponse w2 (primaryId g)))"
    by (rule build_sendsOnly) simp_all
  have "identifyContact env w request = handled (buildConsolidatedResponse w2 (primaryId g))"
    by (simp add: identifyContact_def body)
  moreover have "table (fst (identifyContact env w request)) = table w"
    by (simp add: identifyContact_def body handled_fst build_table t1 t2)
  moreover have "sendsOnly (\<lambda>c. \<not> isWrite c) w (fst (identifyContact env w request))"
    using sendsOnly_trans [OF s1 sendsOnly_trans [OF s2 s3]]
    by (simp add: identifyContact_def body handled_fst)
  ultimately show ?thesis by simp
qed

theorem no_new_information_no_write_witness:
  "snd (identifyContact (mkEnv ''x'' 9 0) storedA (emailOnly ''e1'')) =
     Success \<lparr>primaryContactId = ''a'', emails = [''e1''], phoneNumbers = [''p1''],
              secondaryContactIds = []\<rparr> \<and>
   table (fst (identifyContact (mkEnv ''x'' 9 0) storedA (emailOnly ''e1''))) = table storedA \<and>
   sendsOnly (\<lambda>c. \<not> isWrite c) storedA
     (fst (identifyContact (mkEnv ''x'' 9 0) storedA (emailOnly ''e1'')))"
proof -
  let ?r = "emailOnly ''e1''"
  let ?w1 = "fst (findByEmailOrPhone storedA (queryParamsOf ?r))"
  let ?w2 = "fst (groupContactsByPrimary ?w1 [contactA])"
  let ?g = "\<lparr>primaryId = ''a'', g_createdAt = 1, contacts = [contactA]\<rparr>"
  have f: "findByEmailOrPhone storedA (queryParamsOf ?r) = (?w1, Success [contactA])"
    by code_simp
  have n: "[contactA] \<noteq> []" by simp
  have g: "groupContactsByPrimary ?w1 [contactA] = (?w2, Inr [?g])"
    by code_simp
  have k: "(\<exists>c \<in> set (contacts ?g).
          (truthy (req_email ?r) \<longrightarrow> email c = req_email ?r) \<and>
          (truthy (req_phoneNumber ?r) \<longrightarrow> phoneNumber c = req_phoneNumber ?r)) \<or>
       ((truthy (req_email ?r) \<longrightarrow> (\<exists>c \<in> set (contacts ?g). email c = req_email ?r)) \<and>
        (truthy (req_phoneNumber ?r) \<longrightarrow>
           (\<exists>c \<in> set (contacts ?g). phoneNumber c = req_phoneNumber ?r)))"
    by (simp add: emailOnly_def contactA_def truthy_def)
  have h: "snd (handled (buildConsolidatedResponse ?w2 (primaryId ?g))) =
      Success \<lparr>primaryContactId = ''a'', emails = [''e1''], phoneNumbers = [''p1''],
                    secondaryContactIds = []\<rparr>"
    by code_simp
  note t = no_new_information_no_write [OF f n g k, of "mkEnv ''x'' 9 0"]
  from t have "identifyContact (mkEnv ''x'' 9 0) storedA ?r =
                 handled (buildConsolidatedResponse ?w2 (primaryId ?g))" by (rule conjunct1)
  then have "snd (identifyContact (mkEnv ''x'' 9 0) storedA ?r) =
      Success \<lparr>primaryContactId = ''a'', emails = [''e1''], phoneNumbers = [''p1''],
                    secondaryContactIds = []\<rparr>"
    using h by simp
  moreover from t have "table (fst (identifyContact (mkEnv ''x'' 9 0) storedA ?r)) = table storedA \<and>
     sendsOnly (\<lambda>c. \<not> isWrite c) storedA (fst (identifyContact (mkEnv ''x'' 9 0) storedA ?r))"
    by (rule conjunct2)
  ultimately show ?thesis by (rule conjI)
qed

text \<open>
  C8. A request with neither email nor phoneNumber gets the failure result "At least one of
  email or phoneNumber must be provided", and the world is untouched: no request was sent
  to the store and the table is the same.
\<close>

theorem identifyContact_invalid_request:
  "identifyContact env w \<lparr>req_email = None, req_phoneNumber = None\<rparr> =
     (w, Failure ''At least one of email or phoneNumber must be provided'')"
  by (simp add: identifyContact_def identifyBody_def handled_def truthy_def)

text \<open>
  C9. When the matched records fall into more than two groups, the call selects with
  \<open>oldestGroup\<close> a group whose root creation time is the smallest among the groups and
  answers with the consolidated view of that root; the table is unchanged and every request
  sent is a read. On a table with distinct keys the creation time of each group is the
  \<open>createdAt\<close> of the stored item its \<open>primaryId\<close> names, so the stored root of the
  selected group is at least as old as the stored root of every group. When the store
  answers and the selected root is a stored primary \<open>p\<close>, the call succeeds with
  \<open>primaryContactId\<close> the selected root, the emails and phone numbers of \<open>p\<close> and then
  of its secondaries in the order of the Scan, first occurrences only, and the ids of those
  secondaries.
\<close>

theorem many_chains_oldest_no_mutation:
  assumes find: "findByEmailOrPhone w (queryParamsOf request) = (w1, Success existingContacts)"
    and ne: "existingContacts \<noteq> []"
    and grp: "groupContactsByPrimary w1 existingContacts = (w2, Inr (g # gs))"
    and many: "2 \<le> length gs"
  shows "identifyContact env w request =
           handled (buildConsolidatedResponse w2 (primaryId (oldestGroup g gs))) \<and>
         oldestGroup g gs \<in> set (g # gs) \<and>
         (\<forall>h \<in> set (g # gs). g_createdAt (oldestGroup g gs) \<le> g_createdAt h) \<and>
         table (fst (identifyContact env w request)) = table w \<and>
         sendsOnly (\<lambda>c. \<not> isWrite c) w (fst (identifyContact env w request)) \<and>
         (distinct (map cid (table w)) \<longrightarrow>
            (\<forall>h \<in> set (g # gs). \<exists>rs rh.
                getItem (primaryId (oldestGroup g gs)) (table w) = Some rs \<and>
                getItem (primaryId h) (table w) = Some rh \<and>
                g_createdAt h = createdAt rh \<and> createdAt rs \<le> createdAt rh)) \<and>
         (\<forall>p. faults w = [] \<longrightarrow>
              getItem (primaryId (oldestGroup g gs)) (table w) = Some p \<longrightarrow>
              linkPrecedence p = Primary \<longrightarrow>
              snd (identifyContact env w request) =
                Success
                  \<lparr>primaryContactId = primaryId (oldestGroup g gs),
                   emails = dedupe (present (email p #
                     map email (chainSecondaries (table w) (primaryId (oldestGroup g gs))))),
                   phoneNumbers = dedupe (present (phoneNumber p #
                     map phoneNumber (chainSecondaries (table w) (primaryId (oldestGroup g gs))))),
                   secondaryContactIds =
                     map cid (chainSecondaries (table w) (primaryId (oldestGroup g gs)))\<rparr>)"
proof -
  let ?sel = "oldestGroup g gs"
  have valid: "truthy (req_email request) \<or> truthy (req_phoneNumber request)"
    using find ne by (auto simp: findByEmailOrPhone_def queryParamsOf_def truthy_def split: if_splits)
  obtain a b rest where gs: "gs = a # b # rest"
    using many by (cases gs; cases "tl gs") auto
  have body: "identifyBody env w request = buildConsolidatedResponse w2 (primaryId ?sel)"
    using valid find ne grp gs by (auto simp: identifyBody_def)
  have t1: "table w1 = table w" using find_table [of w "queryParamsOf request"] find by simp
  have t2: "table w2 = table w1"
    using groupLoop_table [of w1 "[]" existingContacts] grp by (simp add: groupContactsByPrimary_def)
  have s1: "sendsOnly (\<lambda>c. \<not> isWrite c) w w1"
    using find_sendsOnly [of "\<lambda>c. \<not> isWrite c" "queryParamsOf request" w] find by simp
  have s2: "sendsOnly (\<lambda>c. \<not> isWrite c) w1 w2"
    using groupLoop_sendsOnly [of "\<lambda>c. \<not> isWrite c" w1 "[]" existingContacts] grp
    by (simp add: groupContactsByPrimary_def)
  have s3: "sendsOnly (\<lambda>c. \<not> isWrite c) w2 (fst (buildConsolidatedResponse w2 (primaryId ?sel)))"
    by (rule build_sendsOnly) simp_all
  have mem: "?sel \<in> set (g # gs)" by (rule oldestGroup_mem)
  have least: "\<forall>h \<in> set (g # gs). g_createdAt ?sel \<le> g_createdAt h"
    by (rule oldestGroup_le_all)
  have c1: "identifyContact env w request = handled (buildConsolidatedResponse w2 (primaryId ?sel))"
    by (simp add: identifyContact_def body)
  have c4: "table (fst (identifyContact env w request)) = table w"
    by (simp add: identifyContact_def body handled_fst build_table t1 t2)
  have c5: "sendsOnly (\<lambda>c. \<not> isWrite c) w (fst (identifyContact env w request))"
    using sendsOnly_trans [OF s1 sendsOnly_trans [OF s2 s3]]
    by (simp add: identifyContact_def body handled_fst)
  have c6: "\<forall>h \<in> set (g # gs). \<exists>rs rh.
                getItem (primaryId ?sel) (table w) = Some rs \<and>
                getItem (primaryId h) (table w) = Some rh \<and>
                g_createdAt h = createdAt rh \<and> createdAt rs \<le> createdAt rh"
    if ids: "distinct (map cid (table w))"
  proof -
    have sub: "set existingContacts \<subseteq> set (table w1)" using find_SuccessD [OF find] t1 by simp
    have sound: "list_all (groupOfTable (table w)) (g # gs)"
      using groupLoop_sound [of w1 existingContacts "[]" w2 "g # gs"] ids sub grp t1
      by (simp add: groupContactsByPrimary_def)
    have root: "\<exists>r. getItem (primaryId h) (table w) = Some r \<and> g_createdAt h = createdAt r"
      if "h \<in> set (g # gs)" for h
    proof -
      have "groupOfTable (table w) h" using sound that by (auto simp: list_all_iff)
      then show ?thesis by (auto simp: groupOfTable_def)
    qed
    show ?thesis
    proof
      fix h assume h: "h \<in> set (g # gs)"
      obtain rs where rs: "getItem (primaryId ?sel) (table w) = Some rs"
        "g_createdAt ?sel = createdAt rs" using root [OF mem] by blast
      obtain rh where rh: "getItem (primaryId h) (table w) = Some rh"
        "g_createdAt h = createdAt rh" using root [OF h] by blast
      have "createdAt rs \<le> createdAt rh" using least h rs(2) rh(2) by auto
      then show "\<exists>rs rh. getItem (primaryId ?sel) (table w) = Some rs \<and>
                getItem (primaryId h) (table w) = Some rh \<and>
                g_createdAt h = createdAt rh \<and> createdAt rs \<le> createdAt rh"
        using rs rh by blast
    qed
  qed
  have c7: "snd (identifyContact env w request) =
                Success
                  \<lparr>primaryContactId = primaryId ?sel,
                   emails = dedupe (present (email p #
                     map email (chainSecondaries (table w) (primaryId ?sel)))),
                   phoneNumbers = dedupe (present (phoneNumber p #
                     map phoneNumber (chainSecondaries (table w) (primaryId ?sel)))),
                   secondaryContactIds = map cid (chainSecondaries (table w) (primaryId ?sel))\<rparr>"
    if ok: "faults w = []" and root: "getItem (primaryId ?sel) (table w) = Some p"
      and prim: "linkPrecedence p = Primary" for p
  proof -
    have f1: "faults w1 = []" using find_faults [OF ok, of "queryParamsOf request"] find by simp
    have f2: "faults w2 = []"
      using groupLoop_faults [OF f1, of "[]" existingContacts] grp
      by (simp add: groupContactsByPrimary_def)
    have root2: "getItem (primaryId ?sel) (table w2) = Some p" using root t1 t2 by simp
    show ?thesis
      unfolding c1 build_of_primary [OF f2 root2 prim]
      by (simp add: handled_def t1 t2)
  qed
  show ?thesis using c1 mem least c4 c5 c6 c7 by blast
qed


theorem many_chains_oldest_no_mutation_witness:
  "faults storedMerged = [] \<and>
   distinct (map cid (table storedMerged)) \<and>
   getItem ''a'' (table storedMerged) = Some contactA \<and>
   primaryId (oldestGroup (hd mergedGroups) (tl mergedGroups)) = ''a'' \<and>
   snd (identifyContact (mkEnv ''x'' 9 0) storedMerged (mkRequest ''e2'' ''p4'')) =
     Success \<lparr>primaryContactId = ''a'', emails = [''e1'', ''e2''],
              phoneNumbers = [''p1'', ''p2''], secondaryContactIds = [''b'']\<rparr> \<and>
   list_all (\<lambda>h. g_createdAt (oldestGroup (hd mergedGroups) (tl mergedGroups)) \<le> g_createdAt h)
     mergedGroups \<and>
   list_all (\<lambda>h. \<exists>rs rh.
       getItem (primaryId (oldestGroup (hd mergedGroups) (tl mergedGroups))) (table storedMerged) =
         Some rs \<and>
       getItem (primaryId h) (table storedMerged) = Some rh \<and>
       g_createdAt h = createdAt rh \<and> createdAt rs \<le> createdAt rh) mergedGroups \<and>
   table (fst (identifyContact (mkEnv ''x'' 9 0) storedMerged (mkRequest ''e2'' ''p4''))) =
     table storedMerged \<and>
   sendsOnly (\<lambda>c. \<not> isWrite c) storedMerged
     (fst (identifyContact (mkEnv ''x'' 9 0) storedMerged (mkRequest ''e2'' ''p4'')))"
proof -
  let ?r = "mkRequest ''e2'' ''p4''"
  let ?e = "mkEnv ''x'' 9 0"
  let ?ex = "[demotedB, contactC, mkContact ''z'' ''e4'' ''p4'' None Primary 5]"
  let ?w1 = "fst (findByEmailOrPhone storedMerged (queryParamsOf ?r))"
  let ?w2 = "fst (groupContactsByPrimary ?w1 ?ex)"
  let ?sel = "oldestGroup (hd mergedGroups) (tl mergedGroups)"
  have f: "findByEmailOrPhone storedMerged (queryParamsOf ?r) = (?w1, Success ?ex)"
    by code_simp
  have n: "?ex \<noteq> []" by simp
  have g: "groupContactsByPrimary ?w1 ?ex = (?w2, Inr (hd mergedGroups # tl mergedGroups))"
    by code_simp
  have m: "2 \<le> length (tl mergedGroups)" by (simp add: mergedGroups_def)
  have l: "hd mergedGroups # tl mergedGroups = mergedGroups" by (simp add: mergedGroups_def)
  have ok: "faults storedMerged = []" by code_simp
  have ids: "distinct (map cid (table storedMerged))" by code_simp
  have sel: "primaryId ?sel = ''a''" by code_simp
  have root: "getItem (primaryId ?sel) (table storedMerged) = Some contactA" by code_simp
  have prim: "linkPrecedence contactA = Primary" by (simp add: contactA_def)
  have e: "dedupe (present (email contactA #
             map email (chainSecondaries (table storedMerged) (primaryId ?sel)))) =
           [''e1'', ''e2'']" by code_simp
  have ph: "dedupe (present (phoneNumber contactA #
              map phoneNumber (chainSecondaries (table storedMerged) (primaryId ?sel)))) =
            [''p1'', ''p2'']" by code_simp
  have s: "map cid (chainSecondaries (table storedMerged) (primaryId ?sel)) = [''b'']"
    by code_simp
  note t = many_chains_oldest_no_mutation [OF f n g m, of ?e, unfolded l]
  from t have least: "\<forall>h \<in> set mergedGroups. g_createdAt ?sel \<le> g_createdAt h" by blast
  from t ids have roots: "\<forall>h \<in> set mergedGroups. \<exists>rs rh.
       getItem (primaryId ?sel) (table storedMerged) = Some rs \<and>
       getItem (primaryId h) (table storedMerged) = Some rh \<and>
       g_createdAt h = createdAt rh \<and> createdAt rs \<le> createdAt rh" by blast
  from t have frame: "table (fst (identifyContact ?e storedMerged ?r)) = table storedMerged"
    and reads: "sendsOnly (\<lambda>c. \<not> isWrite c) storedMerged (fst (identifyContact ?e storedMerged ?r))"
    by blast+
  from t ok root prim have "snd (identifyContact ?e storedMerged ?r) =
      Success \<lparr>primaryContactId = primaryId ?sel,
         emails = dedupe (present (email contactA #
             map email (chainSecondaries (table storedMerged) (primaryId ?sel)))),
         phoneNumbers = dedupe (present (phoneNumber contactA #
              map phoneNumber (chainSecondaries (table storedMerged) (primaryId ?sel)))),
         secondaryContactIds = map cid (chainSecondaries (table storedMerged) (primaryId ?sel))\<rparr>"
    by blast
  then have view: "snd (identifyContact ?e storedMerged ?r) =
     Success \<lparr>primaryContactId = ''a'', emails = [''e1'', ''e2''],
              phoneNumbers = [''p1'', ''p2''], secondaryContactIds = [''b'']\<rparr>"
    unfolding e ph s unfolding sel .
  have rootA: "getItem ''a'' (table storedMerged) = Some contactA" using root unfolding sel .
  show ?thesis
    using ok ids rootA sel view least roots frame reads
    unfolding list_all_iff by blast
qed

text \<open>
  C10. A request whose two fields are empty strings is rejected like one without fields,
  with the world untouched. A field that is the empty string makes the call behave as the
  same call with that field absent (same answer, same table, same requests sent). No call
  sends a Scan with an empty string as a match key or a PutItem of a record with an empty
  string as email or phone number.
\<close>

theorem empty_string_is_absent:
  "identifyContact env w \<lparr>req_email = Some [], req_phoneNumber = Some []\<rparr> =
     (w, Failure ''At least one of email or phoneNumber must be provided'') \<and>
   identifyContact env w \<lparr>req_email = Some [], req_phoneNumber = p\<rparr> =
     identifyContact env w \<lparr>req_email = None, req_phoneNumber = p\<rparr> \<and>
   identifyContact env w \<lparr>req_email = e, req_phoneNumber = Some []\<rparr> =
     identifyContact env w \<lparr>req_email = e, req_phoneNumber = None\<rparr> \<and>
   sendsOnly noEmptyString w (fst (identifyContact env w r))"
proof -
  have "identifyContact env w \<lparr>req_email = Some [], req_phoneNumber = Some []\<rparr> =
     (w, Failure ''At least one of email or phoneNumber must be provided'')"
    by (simp add: identifyContact_def identifyBody_def handled_def truthy_def)
  moreover have "identifyContact env w \<lparr>req_email = Some [], req_phoneNumber = p\<rparr> =
     identifyContact env w \<lparr>req_email = None, req_phoneNumber = p\<rparr>"
    by (rule same_query_identify) (simp add: queryParamsOf_def truthy_def)
  moreover have "identifyContact env w \<lparr>req_email = e, req_phoneNumber = Some []\<rparr> =
     identifyContact env w \<lparr>req_email = e, req_phoneNumber = None\<rparr>"
    by (rule same_query_identify) (simp add: queryParamsOf_def truthy_def)
  moreover have "sendsOnly noEmptyString w (fst (identifyContact env w r))"
    using identifyBody_noEmpty [of w env r] by (simp add: identifyContact_def handled_fst)
  ultimately show ?thesis by simp
qed

end
